theory Spec2Isabelle
  imports Complex_Main "HOL-Library.Multiset"
begin

section \<open>ForensicsOverlay: block-level forensic analysis of an image\<close>

text \<open>
  The development follows \<^verbatim>\<open>src/components/ForensicsOverlay.js\<close>. JavaScript
  numbers are read as real numbers: the rounding of IEEE doubles is not part of the
  model, except in the threshold index of line 180, where \<^verbatim>\<open>Math.floor\<close> makes it
  visible (\<open>thrIndexDouble\<close> below). A JavaScript array is a list, a matrix (array of
  rows) a list of lists.
  The value \<^verbatim>\<open>undefined\<close> that an out-of-range array read produces is
  \<open>None\<close>.
\<close>

subsection \<open>Threshold selection and highlight decision (lines 179-188)\<close>

type_synonym scoreMap = "real list list"

text \<open>\<^verbatim>\<open>mat.flat()\<close> on an array of rows.\<close>

definition flat :: "'a list list \<Rightarrow> 'a list" where
  "flat m = concat m"

text \<open>
  \<^verbatim>\<open>arr[i]\<close> for a number \<open>i\<close> that is an integer: the element when
  \<open>0 \<le> i < arr.length\<close>, \<^verbatim>\<open>undefined\<close> otherwise.
\<close>

definition js_index :: "'a list \<Rightarrow> int \<Rightarrow> 'a option" where
  "js_index arr i = (if 0 \<le> i \<and> i < int (length arr) then Some (arr ! nat i) else None)"

text \<open>
  \<^verbatim>\<open>composite.flat().sort((a, b) => a - b)\<close>: the numeric comparator orders the
  values ascending.
\<close>

definition flatC :: "scoreMap \<Rightarrow> real list" where
  "flatC composite = sort (flat composite)"

text \<open>
  \<^verbatim>\<open>flatC[Math.floor(flatC.length * thresholdPercent / 100)]\<close>, the product and
  the quotient taken exactly.
\<close>

definition thrIndex :: "scoreMap \<Rightarrow> real \<Rightarrow> int" where
  "thrIndex composite thresholdPercent =
     \<lfloor>real (length (flatC composite)) * thresholdPercent / 100\<rfloor>"

definition thr :: "scoreMap \<Rightarrow> real \<Rightarrow> real option" where
  "thr composite thresholdPercent =
     js_index (flatC composite) (thrIndex composite thresholdPercent)"

subsection \<open>The threshold index in double arithmetic (line 180)\<close>

text \<open>\<open>2\<^sup>e\<close> for an integer exponent.\<close>

definition pow2 :: "int \<Rightarrow> real" where
  "pow2 e = (if 0 \<le> e then 2 ^ nat e else 1 / 2 ^ nat (- e))"

text \<open>
  The binary exponent of a positive real \<open>x\<close>, the integer \<open>e\<close> with
  \<open>2\<^sup>e \<le> x < 2\<^sup>e\<^sup>+\<^sup>1\<close>: found by halving from 1 upwards and by doubling
  below 1.
\<close>

function expoUp :: "real \<Rightarrow> int" where
  "expoUp x = (if x < 2 then 0 else expoUp (x / 2) + 1)"
  by pat_completeness auto
termination
proof (relation "measure (\<lambda>x. nat \<lfloor>x\<rfloor>)")
  show "wf (measure (\<lambda>x::real. nat \<lfloor>x\<rfloor>))" by simp
next
  fix x :: real
  assume "\<not> x < 2"
  then have "x / 2 \<le> x - 1" by simp
  then have "\<lfloor>x / 2\<rfloor> \<le> \<lfloor>x - 1\<rfloor>" by (rule floor_mono)
  moreover have "0 < \<lfloor>x\<rfloor>" using \<open>\<not> x < 2\<close> by simp
  ultimately show "(x / 2, x) \<in> measure (\<lambda>x. nat \<lfloor>x\<rfloor>)" by simp
qed

function expoDown :: "real \<Rightarrow> int" where
  "expoDown x = (if 0 < x \<and> x < 1 then expoDown (2 * x) - 1 else 0)"
  by pat_completeness auto
termination
proof (relation "measure (\<lambda>x. nat \<lceil>1 / x\<rceil>)")
  show "wf (measure (\<lambda>x::real. nat \<lceil>1 / x\<rceil>))" by simp
next
  fix x :: real
  assume a: "0 < x \<and> x < 1"
  then have "1 < 1 / x" by simp
  then have c: "2 \<le> \<lceil>1 / x\<rceil>" by linarith
  have "1 / (2 * x) = (1 / x) / 2" by simp
  also have "\<dots> \<le> of_int \<lceil>1 / x\<rceil> / 2" by (simp add: divide_right_mono)
  also have "\<dots> \<le> of_int (\<lceil>1 / x\<rceil> - 1)" using c by simp
  finally have le: "1 / (2 * x) \<le> of_int (\<lceil>1 / x\<rceil> - 1)" .
  have "\<lceil>1 / (2 * x)\<rceil> \<le> \<lceil>1 / x\<rceil> - 1"
    by (subst ceiling_le_iff) (rule le)
  then show "(2 * x, x) \<in> measure (\<lambda>x. nat \<lceil>1 / x\<rceil>)" using c a by simp
qed

declare expoUp.simps [simp del] expoDown.simps [simp del]

definition expo :: "real \<Rightarrow> int" where
  "expo x = (if 1 \<le> x then expoUp x else expoDown x)"

text \<open>Rounding to the nearest integer, a tie going to the even neighbour.\<close>

definition roundEven :: "real \<Rightarrow> int" where
  "roundEven y =
     (let f = \<lfloor>y\<rfloor> in
      if y - of_int f < 1 / 2 then f
      else if 1 / 2 < y - of_int f then f + 1
      else if even f then f else f + 1)"

text \<open>
  The spacing of the doubles around \<open>x\<close> is \<open>2\<close> to the power \<open>ulpExp x\<close>: 53
  significant bits, and \<open>2\<^sup>-\<^sup>1\<^sup>0\<^sup>7\<^sup>4\<close> in the subnormal range. \<open>rd x\<close> is the
  double nearest to \<open>x\<close>, ties to even, the rounding that IEEE 754 prescribes for
  the result of \<^verbatim>\<open>*\<close> and \<^verbatim>\<open>/\<close>. Overflow to \<^verbatim>\<open>Infinity\<close> is left out: the
  operands of line 180 stay below \<open>2\<^sup>3\<^sup>9\<close>, an array having fewer than
  \<open>2\<^sup>3\<^sup>2\<close> elements.
\<close>

definition ulpExp :: "real \<Rightarrow> int" where
  "ulpExp x = max (expo \<bar>x\<bar> - 52) (- 1074)"

definition rd :: "real \<Rightarrow> real" where
  "rd x = (if x = 0 then 0
           else (let u = pow2 (ulpExp x)
                 in sgn x * of_int (roundEven (\<bar>x\<bar> / u)) * u))"

text \<open>
  Line 180 as JavaScript evaluates it: \<^verbatim>\<open>flatC.length * thresholdPercent\<close> is
  rounded to a double, the quotient by 100 is rounded again, and \<^verbatim>\<open>Math.floor\<close>
  is taken of that double.
\<close>

definition thrIndexDouble :: "scoreMap \<Rightarrow> real \<Rightarrow> int" where
  "thrIndexDouble composite thresholdPercent =
     \<lfloor>rd (rd (real (length (flatC composite)) * thresholdPercent) / 100)\<rfloor>"

definition thrDouble :: "scoreMap \<Rightarrow> real \<Rightarrow> real option" where
  "thrDouble composite thresholdPercent =
     js_index (flatC composite) (thrIndexDouble composite thresholdPercent)"

subsection \<open>The highlight decision (lines 184-188)\<close>

text \<open>
  \<^verbatim>\<open>score >= thr\<close>: a comparison with \<^verbatim>\<open>undefined\<close> is false.
\<close>

definition js_ge :: "real \<Rightarrow> real option \<Rightarrow> bool" where
  "js_ge score t = (case t of None \<Rightarrow> False | Some v \<Rightarrow> v \<le> score)"

text \<open>
  The \<^verbatim>\<open>composite.forEach\<close> loop fills the rectangle of block \<open>(by, bx)\<close>
  exactly when \<^verbatim>\<open>score >= thr\<close>; the mask records that decision per block.
\<close>

definition highlightMask :: "scoreMap \<Rightarrow> real option \<Rightarrow> bool list list" where
  "highlightMask composite t = map (map (\<lambda>score. js_ge score t)) composite"

text \<open>The \<^verbatim>\<open>ctx.fillRect(bx * blockSize, by * blockSize, blockSize, blockSize)\<close> calls, in order.\<close>

definition fillRects :: "nat \<Rightarrow> scoreMap \<Rightarrow> real option \<Rightarrow> (nat \<times> nat \<times> nat \<times> nat) list" where
  "fillRects blockSize composite t =
     concat (map (\<lambda>(by, row).
       concat (map (\<lambda>(bx, score).
         if js_ge score t then [(bx * blockSize, by * blockSize, blockSize, blockSize)] else [])
         (enumerate 0 row)))
       (enumerate 0 composite))"

subsection \<open>The imaging back-end\<close>

text \<open>
  A single-channel \<^verbatim>\<open>cv.Mat\<close> is the list of its rows. The image has
  \<open>h\<close> rows of \<open>w\<close> samples.
\<close>

type_synonym mat = "real list list"

definition rows :: "mat \<Rightarrow> nat" where
  "rows m = length m"

definition cols :: "mat \<Rightarrow> nat" where
  "cols m = (case m of [] \<Rightarrow> 0 | r # _ \<Rightarrow> length r)"

definition wf_mat :: "nat \<Rightarrow> nat \<Rightarrow> mat \<Rightarrow> bool" where
  "wf_mat w h m = (length m = h \<and> list_all (\<lambda>r. length r = w) m)"

datatype rect = Rect (rect_x: int) (rect_y: int) (rect_width: int) (rect_height: int)

datatype error = RangeError | IndexSizeError | RoiOutOfRange | SizeMismatch | UndefinedRead

text \<open>
  Modelled from the spec: OpenCV.js is loaded from outside the repository. Section 6
  of the specification lists the capabilities of the imaging back-end: per-region mean
  and mean of squares, absolute difference of two equal-shaped regions. They are taken
  as exact operations on real samples; the saturation and rounding of 8-bit matrices
  are not modelled. \<^verbatim>\<open>m.roi(rect)\<close> is the sub-matrix, and fails when the
  rectangle leaves the matrix.
\<close>

definition roi :: "mat \<Rightarrow> rect \<Rightarrow> error + mat" where
  "roi m r =
     (if 0 \<le> rect_x r \<and> 0 \<le> rect_width r \<and> rect_x r + rect_width r \<le> int (cols m)
         \<and> 0 \<le> rect_y r \<and> 0 \<le> rect_height r \<and> rect_y r + rect_height r \<le> int (rows m)
      then Inr (map (\<lambda>row. take (nat (rect_width r)) (drop (nat (rect_x r)) row))
                  (take (nat (rect_height r)) (drop (nat (rect_y r)) m)))
      else Inl RoiOutOfRange)"

text \<open>
  Modelled from the spec: \<^verbatim>\<open>cv.mean(m)[0]\<close> is the per-region mean, the
  arithmetic mean of the samples. No detector takes the mean of an empty region.
\<close>

definition cv_mean :: "mat \<Rightarrow> real" where
  "cv_mean m = sum_list (concat m) / real (length (concat m))"

text \<open>
  Modelled from the spec: \<^verbatim>\<open>cv.multiply\<close>, \<^verbatim>\<open>cv.absdiff\<close> and
  \<^verbatim>\<open>cv.subtract\<close> work sample by sample on operands of one shape, and fail on
  operands of different shapes.
\<close>

definition cv_binop :: "(real \<Rightarrow> real \<Rightarrow> real) \<Rightarrow> mat \<Rightarrow> mat \<Rightarrow> error + mat" where
  "cv_binop f a b =
     (if map length a = map length b then Inr (map2 (map2 f) a b) else Inl SizeMismatch)"

definition cv_multiply :: "mat \<Rightarrow> mat \<Rightarrow> error + mat" where
  "cv_multiply = cv_binop (\<lambda>x y. x * y)"

definition cv_absdiff :: "mat \<Rightarrow> mat \<Rightarrow> error + mat" where
  "cv_absdiff = cv_binop (\<lambda>x y. \<bar>x - y\<bar>)"

definition cv_subtract :: "mat \<Rightarrow> mat \<Rightarrow> error + mat" where
  "cv_subtract = cv_binop (\<lambda>x y. x - y)"

text \<open>
  Modelled from the spec: \<^verbatim>\<open>m.col(j)\<close> and \<^verbatim>\<open>m.row(i)\<close> are one column and
  one row of a matrix, and fail when the index is outside it.
\<close>

definition col :: "mat \<Rightarrow> nat \<Rightarrow> error + mat" where
  "col m j = (if list_all (\<lambda>r. j < length r) m then Inr (map (\<lambda>r. [r ! j]) m)
              else Inl RoiOutOfRange)"

definition row :: "mat \<Rightarrow> nat \<Rightarrow> error + mat" where
  "row m i = (if i < length m then Inr [m ! i] else Inl RoiOutOfRange)"

text \<open>Sequencing of fallible steps: the first failure aborts, as a thrown exception does.\<close>

definition bindE :: "error + 'a \<Rightarrow> ('a \<Rightarrow> error + 'b) \<Rightarrow> error + 'b" where
  "bindE r f = (case r of Inl e \<Rightarrow> Inl e | Inr v \<Rightarrow> f v)"

fun allE :: "(error + 'a) list \<Rightarrow> error + 'a list" where
  "allE [] = Inr []"
| "allE (r # rs) = bindE r (\<lambda>v. bindE (allE rs) (\<lambda>vs. Inr (v # vs)))"

subsection \<open>Block grid (lines 54-55)\<close>

text \<open>\<^verbatim>\<open>Math.ceil(h / blockSize)\<close> and \<^verbatim>\<open>Math.ceil(w / blockSize)\<close>.\<close>

definition byCount :: "nat \<Rightarrow> nat \<Rightarrow> nat" where
  "byCount h blockSize = nat \<lceil>real h / real blockSize\<rceil>"

definition bxCount :: "nat \<Rightarrow> nat \<Rightarrow> nat" where
  "bxCount w blockSize = nat \<lceil>real w / real blockSize\<rceil>"

text \<open>
  The score maps are created \<open>byCount\<close> by \<open>bxCount\<close> and filled by two nested
  loops, \<open>by\<close> outside and \<open>bx\<close> inside.
\<close>

definition blockMap :: "nat \<Rightarrow> nat \<Rightarrow> (nat \<Rightarrow> nat \<Rightarrow> error + 'a) \<Rightarrow> error + 'a list list" where
  "blockMap byC bxC f = allE (map (\<lambda>by. allE (map (\<lambda>bx. f by bx) [0..<bxC])) [0..<byC])"

text \<open>
  The clipped region of block \<open>(by, bx)\<close> (lines 62-66 and 120-124):
  \<^verbatim>\<open>new cv.Rect(x, y, Math.min(blockSize, w - x), Math.min(blockSize, h - y))\<close>.
\<close>

definition blockRect :: "nat \<Rightarrow> nat \<Rightarrow> nat \<Rightarrow> nat \<Rightarrow> nat \<Rightarrow> rect" where
  "blockRect w h blockSize by bx =
     (let y = by * blockSize;
          x = bx * blockSize;
          hBlk = min (int blockSize) (int h - int y);
          wBlk = min (int blockSize) (int w - int x)
      in Rect (int x) (int y) wBlk hBlk)"

subsection \<open>Local variance (lines 59-74)\<close>

definition varScore :: "mat \<Rightarrow> nat \<Rightarrow> nat \<Rightarrow> nat \<Rightarrow> nat \<Rightarrow> nat \<Rightarrow> error + real" where
  "varScore gray w h blockSize by bx =
     bindE (roi gray (blockRect w h blockSize by bx)) (\<lambda>r.
       let mean = cv_mean r in
       bindE (cv_multiply r r) (\<lambda>sq.
         let meanSq = cv_mean sq in
         Inr (meanSq - mean * mean)))"

definition varMap :: "mat \<Rightarrow> nat \<Rightarrow> nat \<Rightarrow> nat \<Rightarrow> error + scoreMap" where
  "varMap gray w h blockSize =
     blockMap (byCount h blockSize) (bxCount w blockSize) (varScore gray w h blockSize)"

subsection \<open>JPEG grid artifacts (lines 77-111)\<close>

definition gridSize :: nat where
  "gridSize = 8"

text \<open>
  The offsets visited by
  \<^verbatim>\<open>for (let off = 0; off < blockSize; off += gridSize)\<close>, from a start value.
\<close>

function offsetsFrom :: "nat \<Rightarrow> nat \<Rightarrow> nat list" where
  "offsetsFrom off blockSize =
     (if off < blockSize then off # offsetsFrom (off + gridSize) blockSize else [])"
  by pat_completeness auto
termination
  by (relation "measure (\<lambda>(off, blockSize). blockSize - off)") (auto simp: gridSize_def)

declare offsetsFrom.simps [simp del]

text \<open>
  The body of the two inner loops for the sub-cell with corner \<open>(x0, y0)\<close>: the
  differences it pushes onto \<^verbatim>\<open>diffs\<close>, the vertical boundary first.
\<close>

definition cellDiffs :: "mat \<Rightarrow> nat \<Rightarrow> nat \<Rightarrow> nat \<Rightarrow> nat \<Rightarrow> error + real list" where
  "cellDiffs gray w h y0 x0 =
     (if y0 + gridSize > h \<or> x0 + gridSize > w then Inr []
      else
        bindE (roi gray (Rect (int x0) (int y0) (int gridSize) (int gridSize))) (\<lambda>blk.
        bindE (if x0 + gridSize < w then
                 bindE (col blk (gridSize - 1)) (\<lambda>rightCol.
                 bindE (roi gray (Rect (int (x0 + gridSize)) (int y0) 1 (int gridSize))) (\<lambda>nextCol.
                 bindE (cv_absdiff rightCol nextCol) (\<lambda>tmp.
                 Inr [cv_mean tmp])))
               else Inr []) (\<lambda>vertical.
        bindE (if y0 + gridSize < h then
                 bindE (row blk (gridSize - 1)) (\<lambda>bottomRow.
                 bindE (roi gray (Rect (int x0) (int (y0 + gridSize)) (int gridSize) 1)) (\<lambda>nextRow.
                 bindE (cv_absdiff bottomRow nextRow) (\<lambda>tmp.
                 Inr [cv_mean tmp])))
               else Inr []) (\<lambda>horizontal.
        Inr (vertical @ horizontal)))))"

text \<open>All differences of one block, in the order in which they are pushed.\<close>

definition blockDiffs :: "mat \<Rightarrow> nat \<Rightarrow> nat \<Rightarrow> nat \<Rightarrow> nat \<Rightarrow> nat \<Rightarrow> error + real list" where
  "blockDiffs gray w h blockSize by bx =
     bindE (allE (map (\<lambda>yOff.
              bindE (allE (map (\<lambda>xOff.
                       cellDiffs gray w h (by * blockSize + yOff) (bx * blockSize + xOff))
                     (offsetsFrom 0 blockSize)))
                (\<lambda>ds. Inr (concat ds)))
            (offsetsFrom 0 blockSize)))
       (\<lambda>ds. Inr (concat ds))"

text \<open>
  \<^verbatim>\<open>diffs.length ? diffs.reduce((a, b) => a + b, 0) / diffs.length : 0\<close>.
\<close>

definition gridScore :: "mat \<Rightarrow> nat \<Rightarrow> nat \<Rightarrow> nat \<Rightarrow> nat \<Rightarrow> nat \<Rightarrow> error + real" where
  "gridScore gray w h blockSize by bx =
     bindE (blockDiffs gray w h blockSize by bx) (\<lambda>diffs.
       Inr (if length diffs \<noteq> 0 then foldl (\<lambda>a b. a + b) 0 diffs / real (length diffs) else 0))"

definition gridMap :: "mat \<Rightarrow> nat \<Rightarrow> nat \<Rightarrow> nat \<Rightarrow> error + scoreMap" where
  "gridMap gray w h blockSize =
     blockMap (byCount h blockSize) (bxCount w blockSize) (gridScore gray w h blockSize)"

subsection \<open>Denoising with fallback (lines 3-13)\<close>

datatype borderType = BORDER_CONSTANT | BORDER_REPLICATE | BORDER_DEFAULT

text \<open>
  The OpenCV object \<^verbatim>\<open>cv\<close>: \<^verbatim>\<open>fastNlMeansDenoising\<close> may be missing
  from the build, \<^verbatim>\<open>GaussianBlur\<close> is always there. The filters themselves are
  parameters of the model.
\<close>

record cv_env =
  fastNlMeansDenoising :: "(mat \<Rightarrow> real \<Rightarrow> nat \<Rightarrow> nat \<Rightarrow> mat) option"
  GaussianBlur :: "mat \<Rightarrow> nat \<times> nat \<Rightarrow> real \<Rightarrow> real \<Rightarrow> borderType \<Rightarrow> mat"

datatype level = LogLevel | WarnLevel | ErrorLevel

type_synonym console = "(level \<times> string) list"

definition denoise :: "cv_env \<Rightarrow> mat \<Rightarrow> mat \<times> console" where
  "denoise cv gray =
     (case fastNlMeansDenoising cv of
        Some nlm \<Rightarrow> (nlm gray 10 7 21, [])
      | None \<Rightarrow>
          (let ksize = (3, 3) in
           (GaussianBlur cv gray ksize 0 0 BORDER_DEFAULT,
            [(WarnLevel, ''[ForensicsOverlay] fastNlMeansDenoising unavailable, using GaussianBlur'')])))"

subsection \<open>Residual variance (lines 114-132)\<close>

definition prnuScore :: "mat \<Rightarrow> nat \<Rightarrow> nat \<Rightarrow> nat \<Rightarrow> nat \<Rightarrow> nat \<Rightarrow> error + real" where
  "prnuScore residual w h blockSize by bx =
     bindE (roi residual (blockRect w h blockSize by bx)) (\<lambda>r.
       let mean = cv_mean r in
       bindE (cv_multiply r r) (\<lambda>sq.
         let meanSq = cv_mean sq in
         Inr (meanSq - mean * mean)))"

definition prnuMap :: "mat \<Rightarrow> nat \<Rightarrow> nat \<Rightarrow> nat \<Rightarrow> error + scoreMap" where
  "prnuMap residual w h blockSize =
     blockMap (byCount h blockSize) (bxCount w blockSize) (prnuScore residual w h blockSize)"

subsection \<open>Error level analysis (lines 146-161)\<close>

text \<open>
  \<^verbatim>\<open>origData\<close> and \<^verbatim>\<open>newData\<close> are the byte arrays of
  \<^verbatim>\<open>getImageData(0, 0, w, h)\<close>, four bytes per pixel. One pass of the innermost
  loop adds \<^verbatim>\<open>Math.abs(origData[idx] - newData[idx])\<close> to \<^verbatim>\<open>sum\<close>, or
  nothing when the pixel is outside the image. A read past the end of an array gives
  \<^verbatim>\<open>undefined\<close> and spoils the sum; the model stops there.
\<close>

definition elaPixel :: "nat list \<Rightarrow> nat list \<Rightarrow> nat \<Rightarrow> nat \<Rightarrow> nat \<Rightarrow> nat \<Rightarrow> error + real" where
  "elaPixel origData newData w h py px =
     (if py \<ge> h \<or> px \<ge> w then Inr 0
      else
        (let idx = (py * w + px) * 4 in
         case (js_index origData (int idx), js_index newData (int idx)) of
           (Some a, Some b) \<Rightarrow> Inr \<bar>real a - real b\<bar>
         | _ \<Rightarrow> Inl UndefinedRead))"

definition elaScore :: "nat list \<Rightarrow> nat list \<Rightarrow> nat \<Rightarrow> nat \<Rightarrow> nat \<Rightarrow> nat \<Rightarrow> nat \<Rightarrow> error + real" where
  "elaScore origData newData w h blockSize by bx =
     bindE (allE (map (\<lambda>yy.
              bindE (allE (map (\<lambda>xx.
                       elaPixel origData newData w h (by * blockSize + yy) (bx * blockSize + xx))
                     [0..<blockSize]))
                (\<lambda>ts. Inr (sum_list ts)))
            [0..<blockSize]))
       (\<lambda>ts. let sum = sum_list ts in Inr (sum / real (blockSize * blockSize)))"

definition elaMap :: "nat list \<Rightarrow> nat list \<Rightarrow> nat \<Rightarrow> nat \<Rightarrow> nat \<Rightarrow> error + scoreMap" where
  "elaMap origData newData w h blockSize =
     blockMap (byCount h blockSize) (bxCount w blockSize) (elaScore origData newData w h blockSize)"

subsection \<open>Normalisation and fusion (lines 164-177)\<close>

text \<open>
  \<^verbatim>\<open>Math.min(...flat)\<close> and \<^verbatim>\<open>Math.max(...flat)\<close> are the least and the
  greatest entry. A map without entries has nothing to rescale.
\<close>

definition normalizeMap :: "scoreMap \<Rightarrow> scoreMap" where
  "normalizeMap mat =
     (let flt = flat mat in
      if flt = [] then mat
      else
        (let mn = Min (set flt);
             mx = Max (set flt)
         in map (\<lambda>r. map (\<lambda>v. (v - mn) / (mx - mn + 1 / 10 ^ 8)) r) mat))"

definition invert :: "scoreMap \<Rightarrow> scoreMap" where
  "invert m = map (\<lambda>r. map (\<lambda>v. 1 - v) r) m"

text \<open>\<^verbatim>\<open>m[by][bx]\<close>: a missing row or entry is an error.\<close>

definition at2 :: "'a list list \<Rightarrow> nat \<Rightarrow> nat \<Rightarrow> error + 'a" where
  "at2 m by bx = (if by < length m \<and> bx < length (m ! by) then Inr (m ! by ! bx) else Inl UndefinedRead)"

definition compositeMap :: "scoreMap \<Rightarrow> scoreMap \<Rightarrow> scoreMap \<Rightarrow> scoreMap \<Rightarrow> error + scoreMap" where
  "compositeMap vN gN pN eN =
     allE (map (\<lambda>(by, r).
       allE (map (\<lambda>(bx, v).
         bindE (at2 gN by bx) (\<lambda>g.
         bindE (at2 pN by bx) (\<lambda>p.
         bindE (at2 eN by bx) (\<lambda>e.
         Inr ((v + g + p + e) / 4)))))
         (enumerate 0 r)))
       (enumerate 0 vN))"

subsection \<open>The analysis run (lines 42-196)\<close>

text \<open>
  \<^verbatim>\<open>img.onload\<close> runs the three synchronous detectors and starts the JPEG round
  trip; \<^verbatim>\<open>img2.onload\<close> runs when the round trip has produced \<^verbatim>\<open>newData\<close>.
  The record holds what the second callback finds in its closure.
  A canvas without pixels makes \<^verbatim>\<open>getImageData\<close> throw; a block size of zero
  makes \<^verbatim>\<open>Array.from\<close> throw.
\<close>

record pending =
  p_w :: nat
  p_h :: nat
  p_blockSize :: nat
  p_thresholdPercent :: real
  p_varMap :: scoreMap
  p_gridMap :: scoreMap
  p_prnuMap :: scoreMap
  p_origData :: "nat list"
  p_console :: console

definition onload :: "cv_env \<Rightarrow> nat \<Rightarrow> nat \<Rightarrow> mat \<Rightarrow> nat list \<Rightarrow> nat \<Rightarrow> real \<Rightarrow> error + pending" where
  "onload cv w h gray origData blockSize thresholdPercent =
     (if w = 0 \<or> h = 0 then Inl IndexSizeError
      else if blockSize = 0 then Inl RangeError
      else
        bindE (varMap gray w h blockSize) (\<lambda>vm.
        bindE (gridMap gray w h blockSize) (\<lambda>gm.
        (let (denoised, warnings) = denoise cv gray in
         bindE (cv_subtract gray denoised) (\<lambda>residual.
         bindE (prnuMap residual w h blockSize) (\<lambda>pm.
         Inr \<lparr>p_w = w, p_h = h, p_blockSize = blockSize,
              p_thresholdPercent = thresholdPercent,
              p_varMap = vm, p_gridMap = gm, p_prnuMap = pm,
              p_origData = origData, p_console = warnings\<rparr>))))))"

record outcome =
  o_composite :: scoreMap
  o_thr :: "real option"
  o_mask :: "bool list list"
  o_rects :: "(nat \<times> nat \<times> nat \<times> nat) list"
  o_console :: console

definition onload2 :: "pending \<Rightarrow> nat list \<Rightarrow> error + outcome" where
  "onload2 p newData =
     bindE (elaMap (p_origData p) newData (p_w p) (p_h p) (p_blockSize p)) (\<lambda>em.
       (let vN = invert (normalizeMap (p_varMap p));
            gN = invert (normalizeMap (p_gridMap p));
            pN = invert (normalizeMap (p_prnuMap p));
            eN = normalizeMap em
        in bindE (compositeMap vN gN pN eN) (\<lambda>composite.
             (let t = thr composite (p_thresholdPercent p) in
              Inr \<lparr>o_composite = composite, o_thr = t,
                   o_mask = highlightMask composite t,
                   o_rects = fillRects (p_blockSize p) composite t,
                   o_console = p_console p\<rparr>))))"

definition runAnalysis ::
  "cv_env \<Rightarrow> nat \<Rightarrow> nat \<Rightarrow> mat \<Rightarrow> nat list \<Rightarrow> nat list \<Rightarrow> nat \<Rightarrow> real \<Rightarrow> error + outcome" where
  "runAnalysis cv w h gray origData newData blockSize thresholdPercent =
     bindE (onload cv w h gray origData blockSize thresholdPercent) (\<lambda>p. onload2 p newData)"

subsection \<open>The component and its callbacks (lines 28-214)\<close>

text \<open>
  The component owns one canvas and the flag \<^verbatim>\<open>loading\<close>. The effect runs when
  \<^verbatim>\<open>src\<close>, \<^verbatim>\<open>blockSize\<close> or \<^verbatim>\<open>thresholdPercent\<close> changes and returns no
  clean-up function. It starts loading the image; \<^verbatim>\<open>img.onload\<close> sizes the canvas,
  draws the image, runs the synchronous detectors and starts the JPEG round trip;
  \<^verbatim>\<open>img2.onload\<close> draws the image of its own closure again, fills the highlighted
  blocks and calls \<^verbatim>\<open>setLoading(false)\<close>. Each callback works on what its closure
  captured; the source has no run counter and no test whether the source has changed.
  A decoded image is its source string, its size, its grayscale matrix and its RGBA
  bytes. The events are the three moments at which the code runs.
\<close>

record image =
  i_src :: string
  i_w :: nat
  i_h :: nat
  i_gray :: mat
  i_data :: "nat list"

record load =
  l_image :: image
  l_blockSize :: nat
  l_thresholdPercent :: real

record trip =
  t_image :: image
  t_pending :: pending

record canvas =
  c_width :: nat
  c_height :: nat
  c_image :: "string option"
  c_rects :: "(nat \<times> nat \<times> nat \<times> nat) list"

record component =
  s_canvas :: canvas
  s_loading :: bool
  s_src :: string
  s_loads :: "load list"
  s_trips :: "trip list"
  s_console :: console

datatype event = Effect image nat real | ImageLoaded nat | RoundTripDone nat "nat list"

fun step :: "cv_env \<Rightarrow> component \<Rightarrow> event \<Rightarrow> component" where
  "step cv s (Effect img blockSize thresholdPercent) =
     s\<lparr>s_src := i_src img,
       s_loads := s_loads s @ [\<lparr>l_image = img, l_blockSize = blockSize,
                                l_thresholdPercent = thresholdPercent\<rparr>]\<rparr>"
| "step cv s (ImageLoaded k) =
     (case js_index (s_loads s) (int k) of
        None \<Rightarrow> s
      | Some l \<Rightarrow>
          (let img = l_image l;
               s' = s\<lparr>s_canvas := \<lparr>c_width = i_w img, c_height = i_h img,
                                     c_image = Some (i_src img), c_rects = []\<rparr>\<rparr>
           in case onload cv (i_w img) (i_h img) (i_gray img) (i_data img)
                     (l_blockSize l) (l_thresholdPercent l) of
                Inl e \<Rightarrow> s'
              | Inr p \<Rightarrow>
                  s'\<lparr>s_trips := s_trips s' @ [\<lparr>t_image = img, t_pending = p\<rparr>],
                     s_console := s_console s' @ p_console p\<rparr>))"
| "step cv s (RoundTripDone k newData) =
     (case js_index (s_trips s) (int k) of
        None \<Rightarrow> s
      | Some t \<Rightarrow>
          (case onload2 (t_pending t) newData of
             Inl e \<Rightarrow> s
           | Inr out \<Rightarrow>
               s\<lparr>s_canvas := (s_canvas s)\<lparr>c_image := Some (i_src (t_image t)),
                                           c_rects := o_rects out\<rparr>,
                 s_loading := False\<rparr>))"

definition run :: "cv_env \<Rightarrow> component \<Rightarrow> event list \<Rightarrow> component" where
  "run cv s events = foldl (step cv) s events"

text \<open>The mounted component: \<^verbatim>\<open>useState(true)\<close>, an empty canvas, nothing in flight.\<close>

definition mounted :: component where
  "mounted = \<lparr>s_canvas = \<lparr>c_width = 0, c_height = 0, c_image = None, c_rects = []\<rparr>,
              s_loading = True, s_src = [], s_loads = [], s_trips = [], s_console = []\<rparr>"

section \<open>Notions used to state the properties\<close>

text \<open>The samples of a rectangle of a matrix, by coordinates.\<close>

definition samples :: "mat \<Rightarrow> nat \<Rightarrow> nat \<Rightarrow> nat \<Rightarrow> nat \<Rightarrow> mat" where
  "samples m x y wd ht = map (\<lambda>i. map (\<lambda>j. m ! (y + i) ! (x + j)) [0..<wd]) [0..<ht]"

text \<open>
  The part of block \<open>(by, bx)\<close> that lies inside a \<open>w\<close> by \<open>h\<close> image: its
  width, its height and its samples in row-major order.
\<close>

definition clippedWidth :: "nat \<Rightarrow> nat \<Rightarrow> nat \<Rightarrow> nat" where
  "clippedWidth w blockSize bx = min blockSize (w - bx * blockSize)"

definition clippedHeight :: "nat \<Rightarrow> nat \<Rightarrow> nat \<Rightarrow> nat" where
  "clippedHeight h blockSize by = min blockSize (h - by * blockSize)"

definition blockSamples :: "mat \<Rightarrow> nat \<Rightarrow> nat \<Rightarrow> nat \<Rightarrow> nat \<Rightarrow> nat \<Rightarrow> real list" where
  "blockSamples m w h blockSize by bx =
     concat (samples m (bx * blockSize) (by * blockSize)
               (clippedWidth w blockSize bx) (clippedHeight h blockSize by))"

definition average :: "real list \<Rightarrow> real" where
  "average xs = sum_list xs / real (length xs)"

text \<open>Population variance: the mean squared deviation from the mean.\<close>

definition popVariance :: "real list \<Rightarrow> real" where
  "popVariance xs = average (map (\<lambda>v. (v - average xs)\<^sup>2) xs)"

text \<open>A score map has one entry per block.\<close>

definition hasShape :: "nat \<Rightarrow> nat \<Rightarrow> 'a list list \<Rightarrow> bool" where
  "hasShape byC bxC m = (length m = byC \<and> list_all (\<lambda>r. length r = bxC) m)"

text \<open>
  The boundaries of the 8-pixel sub-cells of a block. A sub-cell has its corner
  \<open>(x0, y0)\<close> at a multiple of 8 from the corner of the block. Its right edge
  separates the columns \<open>x0 + 7\<close> and \<open>x0 + 8\<close> over the rows \<open>y0 .. y0 + 7\<close>;
  its bottom edge separates the rows \<open>y0 + 7\<close> and \<open>y0 + 8\<close> over the columns
  \<open>x0 .. x0 + 7\<close>. A boundary is inside the image when both lines of samples are.
\<close>

datatype boundary = RightEdge nat nat | BottomEdge nat nat

definition subCellOffsets :: "nat \<Rightarrow> nat list" where
  "subCellOffsets blockSize = filter (\<lambda>off. gridSize dvd off) [0..<blockSize]"

fun boundaryInside :: "nat \<Rightarrow> nat \<Rightarrow> boundary \<Rightarrow> bool" where
  "boundaryInside w h (RightEdge x0 y0) = (x0 + gridSize < w \<and> y0 + gridSize \<le> h)"
| "boundaryInside w h (BottomEdge x0 y0) = (x0 + gridSize \<le> w \<and> y0 + gridSize < h)"

text \<open>The mean absolute difference of the two lines of samples along a boundary.\<close>

fun boundaryDiff :: "mat \<Rightarrow> boundary \<Rightarrow> real" where
  "boundaryDiff m (RightEdge x0 y0) =
     average (map (\<lambda>i. \<bar>m ! (y0 + i) ! (x0 + gridSize - 1) - m ! (y0 + i) ! (x0 + gridSize)\<bar>)
            [0..<gridSize])"
| "boundaryDiff m (BottomEdge x0 y0) =
     average (map (\<lambda>j. \<bar>m ! (y0 + gridSize - 1) ! (x0 + j) - m ! (y0 + gridSize) ! (x0 + j)\<bar>)
            [0..<gridSize])"

definition cellBoundaries :: "nat \<Rightarrow> nat \<Rightarrow> boundary list" where
  "cellBoundaries y0 x0 = [RightEdge x0 y0, BottomEdge x0 y0]"

definition blockBoundaries :: "nat \<Rightarrow> nat \<Rightarrow> nat \<Rightarrow> nat \<Rightarrow> nat \<Rightarrow> boundary list" where
  "blockBoundaries w h blockSize by bx =
     filter (boundaryInside w h)
       (concat (map (\<lambda>yOff.
          concat (map (\<lambda>xOff. cellBoundaries (by * blockSize + yOff) (bx * blockSize + xOff))
                   (subCellOffsets blockSize)))
          (subCellOffsets blockSize)))"

text \<open>
  The absolute difference of the first (red) byte of pixel \<open>(px, py)\<close> in the two
  RGBA buffers, and its sum over the part of a block that lies inside the image.
\<close>

definition redDiff :: "nat list \<Rightarrow> nat list \<Rightarrow> nat \<Rightarrow> nat \<Rightarrow> nat \<Rightarrow> real" where
  "redDiff origData newData w py px =
     \<bar>real (origData ! ((py * w + px) * 4)) - real (newData ! ((py * w + px) * 4))\<bar>"

definition clippedRedSum :: "nat list \<Rightarrow> nat list \<Rightarrow> nat \<Rightarrow> nat \<Rightarrow> nat \<Rightarrow> nat \<Rightarrow> nat \<Rightarrow> real" where
  "clippedRedSum origData newData w h blockSize by bx =
     (\<Sum>py\<leftarrow>[by * blockSize..<min (by * blockSize + blockSize) h].
        \<Sum>px\<leftarrow>[bx * blockSize..<min (bx * blockSize + blockSize) w].
          redDiff origData newData w py px)"

text \<open>Min-max scaling of a value against the entries of its map.\<close>

definition minMax :: "real list \<Rightarrow> real \<Rightarrow> real" where
  "minMax xs v = (v - Min (set xs)) / (Max (set xs) - Min (set xs) + 1 / 10 ^ 8)"

text \<open>Mean of squares minus squared mean.\<close>

definition meanSqMinusSqMean :: "real list \<Rightarrow> real" where
  "meanSqMinusSqMean xs = average (map (\<lambda>v. v * v) xs) - average xs * average xs"

text \<open>The sample-wise difference of two \<open>w\<close> by \<open>h\<close> matrices.\<close>

definition difference :: "nat \<Rightarrow> nat \<Rightarrow> mat \<Rightarrow> mat \<Rightarrow> mat" where
  "difference w h a b = map (\<lambda>i. map (\<lambda>j. a ! i ! j - b ! i ! j) [0..<w]) [0..<h]"

text \<open>
  The fused score of block \<open>(by, bx)\<close> as the specification words it: the mean of the
  three inverted normalised scores and the normalised ELA score, each with weight 1/4.
\<close>

definition fusion :: "scoreMap \<Rightarrow> scoreMap \<Rightarrow> scoreMap \<Rightarrow> scoreMap \<Rightarrow> nat \<Rightarrow> nat \<Rightarrow> real" where
  "fusion vm gm pm em by bx =
     1 / 4 * (1 - minMax (flat vm) (vm ! by ! bx))
     + 1 / 4 * (1 - minMax (flat gm) (gm ! by ! bx))
     + 1 / 4 * (1 - minMax (flat pm) (pm ! by ! bx))
     + 1 / 4 * minMax (flat em) (em ! by ! bx)"

definition fusionMap :: "scoreMap \<Rightarrow> scoreMap \<Rightarrow> scoreMap \<Rightarrow> scoreMap \<Rightarrow> nat \<Rightarrow> nat \<Rightarrow> scoreMap" where
  "fusionMap vm gm pm em byC bxC =
     map (\<lambda>by. map (\<lambda>bx. fusion vm gm pm em by bx) [0..<bxC]) [0..<byC]"

text \<open>The ELA score of every block, by the clipped sum over the nominal block area.\<close>

definition elaGrid :: "nat list \<Rightarrow> nat list \<Rightarrow> nat \<Rightarrow> nat \<Rightarrow> nat \<Rightarrow> scoreMap" where
  "elaGrid origData newData w h blockSize =
     map (\<lambda>by. map (\<lambda>bx. clippedRedSum origData newData w h blockSize by bx
                            / real (blockSize * blockSize))
                  [0..<bxCount w blockSize]) [0..<byCount h blockSize]"

subsection \<open>Environments for the examples\<close>

text \<open>
  Three stand-ins for the OpenCV object: one whose non-local-means filter halves every
  sample, one whose filter returns its input, and one without the filter, whose blur
  returns its input.
\<close>

definition halvingEnv :: cv_env where
  "halvingEnv = \<lparr>fastNlMeansDenoising = Some (\<lambda>m strength template search. map (map (\<lambda>v. v / 2)) m),
                  GaussianBlur = (\<lambda>m ksize sigmaX sigmaY border. m)\<rparr>"

definition identityEnv :: cv_env where
  "identityEnv = \<lparr>fastNlMeansDenoising = Some (\<lambda>m strength template search. m),
                   GaussianBlur = (\<lambda>m ksize sigmaX sigmaY border. m)\<rparr>"

definition blurOnlyEnv :: cv_env where
  "blurOnlyEnv = \<lparr>fastNlMeansDenoising = None,
                   GaussianBlur = (\<lambda>m ksize sigmaX sigmaY border. m)\<rparr>"

text \<open>
  A 9 by 9 image: columns 0 to 6 are 0, column 7 is 1 and column 8 is 3 in the rows 0 to
  7, and row 8 is 4 throughout.
\<close>

definition stepImage :: mat where
  "stepImage =
     [[0, 0, 0, 0, 0, 0, 0, 1, 3], [0, 0, 0, 0, 0, 0, 0, 1, 3], [0, 0, 0, 0, 0, 0, 0, 1, 3],
      [0, 0, 0, 0, 0, 0, 0, 1, 3], [0, 0, 0, 0, 0, 0, 0, 1, 3], [0, 0, 0, 0, 0, 0, 0, 1, 3],
      [0, 0, 0, 0, 0, 0, 0, 1, 3], [0, 0, 0, 0, 0, 0, 0, 1, 3], [4, 4, 4, 4, 4, 4, 4, 4, 4]]"

text \<open>
  A run on a 3 by 1 image with block size 2, stopped before the round trip returns: two
  blocks, the second one a single pixel wide.
\<close>

definition examplePending :: pending where
  "examplePending =
     \<lparr>p_w = 3, p_h = 1, p_blockSize = 2, p_thresholdPercent = 80,
      p_varMap = [[0, 2]], p_gridMap = [[1, 1]], p_prnuMap = [[0, 4]],
      p_origData = [10, 0, 0, 255, 20, 0, 0, 255, 30, 0, 0, 255],
      p_console = []\<rparr>"

definition exampleNewData :: "nat list" where
  "exampleNewData = [12, 0, 0, 255, 21, 0, 0, 255, 31, 0, 0, 255]"

text \<open>
  A uniform image of constant intensity, the map with one value in every block, and a
  round trip that gives back the red byte of every pixel.
\<close>

definition uniformImage :: "nat \<Rightarrow> nat \<Rightarrow> real \<Rightarrow> mat" where
  "uniformImage w h c = replicate h (replicate w c)"

definition constantMap :: "nat \<Rightarrow> nat \<Rightarrow> nat \<Rightarrow> 'a \<Rightarrow> 'a list list" where
  "constantMap w h blockSize v = replicate (byCount h blockSize) (replicate (bxCount w blockSize) v)"

definition redPreserved :: "nat \<Rightarrow> nat \<Rightarrow> nat list \<Rightarrow> nat list \<Rightarrow> bool" where
  "redPreserved w h origData newData =
     list_all (\<lambda>i. newData ! (4 * i) = origData ! (4 * i)) [0..<w * h]"

text \<open>
  Two one-pixel images, and the component after the source has changed from the first to
  the second while the round trip of the first is outstanding.
\<close>

definition imageA :: image where
  "imageA = \<lparr>i_src = ''a.png'', i_w = 1, i_h = 1, i_gray = [[5]], i_data = [5, 0, 0, 255]\<rparr>"

definition imageB :: image where
  "imageB = \<lparr>i_src = ''b.png'', i_w = 1, i_h = 1, i_gray = [[7]], i_data = [7, 0, 0, 255]\<rparr>"

definition replaced :: component where
  "replaced = run identityEnv mounted
                [Effect imageA 1 80, ImageLoaded 0, Effect imageB 1 80, ImageLoaded 1]"

section \<open>Auxiliary facts\<close>

lemma bindE_Inr [simp]: "bindE (Inr v) f = f v"
  by (simp add: bindE_def)

lemma bindE_Inl [simp]: "bindE (Inl e) f = Inl e"
  by (simp add: bindE_def)

lemma allE_map_Inr:
  "(\<And>x. x \<in> set xs \<Longrightarrow> f x = Inr (g x)) \<Longrightarrow> allE (map f xs) = Inr (map g xs)"
  by (induction xs) simp_all

lemma blockMap_Inr:
  assumes "\<And>by bx. by < byC \<Longrightarrow> bx < bxC \<Longrightarrow> f by bx = Inr (g by bx)"
  shows "blockMap byC bxC f = Inr (map (\<lambda>by. map (\<lambda>bx. g by bx) [0..<bxC]) [0..<byC])"
proof -
  have "allE (map (\<lambda>bx. f by bx) [0..<bxC]) = Inr (map (\<lambda>bx. g by bx) [0..<bxC])"
    if "by < byC" for "by"
    using that assms
    by (intro allE_map_Inr[where f = "\<lambda>bx. f by bx" and g = "\<lambda>bx. g by bx"]) simp
  then show ?thesis
    unfolding blockMap_def
    by (intro allE_map_Inr[where g = "\<lambda>by. map (\<lambda>bx. g by bx) [0..<bxC]"]) simp
qed

lemma count_less_iff:
  assumes "0 < b"
  shows "k < nat \<lceil>real a / real b\<rceil> \<longleftrightarrow> k * b < a"
proof -
  have "k < nat \<lceil>real a / real b\<rceil> \<longleftrightarrow> int k < \<lceil>real a / real b\<rceil>"
    by linarith
  also have "\<dots> \<longleftrightarrow> real k < real a / real b"
    by (simp add: less_ceiling_iff)
  also have "\<dots> \<longleftrightarrow> real k * real b < real a"
    using assms by (simp add: pos_less_divide_eq)
  also have "\<dots> \<longleftrightarrow> k * b < a"
    by (metis of_nat_less_iff of_nat_mult)
  finally show ?thesis .
qed

lemma ceil_div_nat:
  assumes "0 < b"
  shows "nat \<lceil>real a / real b\<rceil> = (a + b - 1) div b"
proof -
  have "k < nat \<lceil>real a / real b\<rceil> \<longleftrightarrow> k < (a + b - 1) div b" for k
  proof -
    have "k < (a + b - 1) div b \<longleftrightarrow> (k + 1) * b \<le> a + b - 1"
      using assms by (simp add: less_eq_div_iff_mult_less_eq Suc_le_eq[symmetric] del: Suc_le_eq)
    also have "\<dots> \<longleftrightarrow> k * b < a"
      using assms by (auto simp: algebra_simps)
    finally show ?thesis using count_less_iff[OF assms] by simp
  qed
  then show ?thesis
    by (meson linorder_neqE_nat nat_neq_iff)
qed

lemma thrIndex_in_range_iff:
  assumes "0 \<le> tp" "tp \<le> 100"
  shows "(\<lfloor>real N * tp / 100\<rfloor> < int N) = (0 < N \<and> tp < 100)"
proof (cases "N = 0")
  case True
  then show ?thesis by simp
next
  case False
  have "\<lfloor>real N * tp / 100\<rfloor> < int N \<longleftrightarrow> real N * tp / 100 < real N"
    by (simp add: floor_less_iff)
  also have "\<dots> \<longleftrightarrow> real N * tp < real N * 100"
    by (simp add: pos_divide_less_eq)
  also have "\<dots> \<longleftrightarrow> tp < 100"
    using False by simp
  finally show ?thesis using False by simp
qed

lemma take_drop_nth_map:
  "x + n \<le> length xs \<Longrightarrow> take n (drop x xs) = map (\<lambda>j. xs ! (x + j)) [0..<n]"
  by (rule nth_equalityI) simp_all

lemma wf_mat_rows: "wf_mat w h m \<Longrightarrow> rows m = h"
  by (simp add: wf_mat_def rows_def)

lemma wf_mat_cols: "wf_mat w h m \<Longrightarrow> 0 < h \<Longrightarrow> cols m = w"
  by (cases m) (auto simp: wf_mat_def cols_def)

lemma wf_mat_row_length: "wf_mat w h m \<Longrightarrow> i < h \<Longrightarrow> length (m ! i) = w"
  by (simp add: wf_mat_def list_all_length)

lemma roi_wf:
  assumes "wf_mat w h m" "x + wd \<le> w" "y + ht \<le> h" "0 < h"
  shows "roi m (Rect (int x) (int y) (int wd) (int ht)) = Inr (samples m x y wd ht)"
proof -
  have len: "length m = h" using assms(1) by (simp add: wf_mat_def)
  have "take ht (drop y m) = map (\<lambda>i. m ! (y + i)) [0..<ht]"
    using assms(3) len by (simp add: take_drop_nth_map)
  moreover have "take wd (drop x (m ! (y + i))) = map (\<lambda>j. m ! (y + i) ! (x + j)) [0..<wd]"
    if "i < ht" for i
    using that assms wf_mat_row_length[OF assms(1), of "y + i"] by (simp add: take_drop_nth_map)
  ultimately have "map (\<lambda>r. take wd (drop x r)) (take ht (drop y m)) = samples m x y wd ht"
    by (simp add: samples_def)
  then show ?thesis
    using assms wf_mat_cols[OF assms(1,4)] wf_mat_rows[OF assms(1)]
    by (simp add: roi_def)
qed

lemma wf_samples: "wf_mat wd ht (samples m x y wd ht)"
  by (simp add: samples_def wf_mat_def list_all_iff)

lemma cv_binop_wf:
  assumes "wf_mat w h a" "wf_mat w h b"
  shows "cv_binop f a b = Inr (map (\<lambda>i. map (\<lambda>j. f (a ! i ! j) (b ! i ! j)) [0..<w]) [0..<h])"
proof -
  have shp: "map length a = map length b"
    using assms by (auto simp: wf_mat_def list_all_length intro!: nth_equalityI)
  have "map2 (map2 f) a b = map (\<lambda>i. map (\<lambda>j. f (a ! i ! j) (b ! i ! j)) [0..<w]) [0..<h]"
    using assms
    by (auto simp: wf_mat_def list_all_length intro!: nth_equalityI)
  then show ?thesis
    using shp by (simp add: cv_binop_def)
qed

lemma concat_grid_length:
  "length (concat (map (\<lambda>i. map (\<lambda>j. g i j) [0..<wd]) [0..<ht])) = ht * wd"
  by (simp add: length_concat o_def sum_list_triv)

lemma sum_list_concat_map:
  fixes xss :: "real list list"
  shows "sum_list (concat xss) = sum_list (map sum_list xss)"
  by (induction xss) simp_all

lemma cv_mean_grid:
  "cv_mean (map (\<lambda>i. map (\<lambda>j. g i j) [0..<wd]) [0..<ht])
     = (\<Sum>i\<leftarrow>[0..<ht]. \<Sum>j\<leftarrow>[0..<wd]. g i j) / real (ht * wd)"
  unfolding cv_mean_def concat_grid_length
  by (simp add: sum_list_concat_map o_def)

lemma map2_same: "map2 f xs xs = map (\<lambda>x. f x x) xs"
  by (induction xs) simp_all

lemma cv_binop_same: "cv_binop f a a = Inr (map (map (\<lambda>x. f x x)) a)"
proof -
  have "map2 (map2 f) a a = map (map (\<lambda>x. f x x)) a"
    by (simp add: map2_same)
  then show ?thesis by (simp add: cv_binop_def)
qed

lemma cv_mean_mean: "cv_mean m = average (concat m)"
  by (simp add: cv_mean_def average_def)

lemma int_min_diff:
  fixes y h b :: nat
  assumes "y < h"
  shows "min (int b) (int h - int y) = int (min b (h - y))"
  using assms by (simp add: min_def) linarith

lemma blockRect_eq:
  assumes "by * blockSize < h" "bx * blockSize < w"
  shows "blockRect w h blockSize by bx =
           Rect (int (bx * blockSize)) (int (by * blockSize))
                (int (clippedWidth w blockSize bx)) (int (clippedHeight h blockSize by))"
  unfolding blockRect_def Let_def clippedWidth_def clippedHeight_def
  using int_min_diff[OF assms(1), of blockSize] int_min_diff[OF assms(2), of blockSize]
  by simp

lemma clipped_bounds:
  fixes y n b :: nat
  assumes "0 < b" "y < n"
  shows "0 < min b (n - y)" "y + min b (n - y) \<le> n"
  using assms by linarith+

lemma regionVariance_aux:
  assumes "wf_mat w h m" "0 < blockSize" "by < byCount h blockSize" "bx < bxCount w blockSize"
  shows "bindE (roi m (blockRect w h blockSize by bx)) (\<lambda>r.
       let mean = cv_mean r in
       bindE (cv_multiply r r) (\<lambda>sq.
         let meanSq = cv_mean sq in
         Inr (meanSq - mean * mean)))
     = Inr (average (map (\<lambda>v. v * v) (blockSamples m w h blockSize by bx))
            - average (blockSamples m w h blockSize by bx) * average (blockSamples m w h blockSize by bx))"
proof -
  have y: "by * blockSize < h" and x: "bx * blockSize < w"
    using assms by (simp_all add: byCount_def bxCount_def count_less_iff)
  have h: "0 < h" using y by simp
  have r: "roi m (blockRect w h blockSize by bx)
         = Inr (samples m (bx * blockSize) (by * blockSize)
               (clippedWidth w blockSize bx) (clippedHeight h blockSize by))"
    unfolding blockRect_eq[OF y x]
    using clipped_bounds[OF assms(2) y] clipped_bounds[OF assms(2) x]
    by (intro roi_wf[OF assms(1)]) (simp_all add: clippedWidth_def clippedHeight_def h)
  show ?thesis
    unfolding r
    by (simp add: cv_multiply_def cv_binop_same cv_mean_mean blockSamples_def map_concat Let_def)
qed

lemma sum_sq_dev:
  fixes xs :: "real list"
  shows "(\<Sum>v\<leftarrow>xs. (v - c)\<^sup>2) = (\<Sum>v\<leftarrow>xs. v * v) - 2 * c * sum_list xs + real (length xs) * c\<^sup>2"
  by (induction xs) (simp_all add: algebra_simps power2_eq_square)

lemma popVariance_eq:
  assumes "xs \<noteq> []"
  shows "popVariance xs = average (map (\<lambda>v. v * v) xs) - average xs * average xs"
proof -
  define n where "n = real (length xs)"
  define c where "c = average xs"
  have n: "n \<noteq> 0" using assms by (simp add: n_def)
  have S: "sum_list xs = n * c"
    using n by (simp add: average_def n_def c_def)
  have "(\<Sum>v\<leftarrow>xs. (v - c)\<^sup>2) = (\<Sum>v\<leftarrow>xs. v * v) - 2 * c * (n * c) + n * c\<^sup>2"
    by (simp only: sum_sq_dev S n_def)
  also have "\<dots> = (\<Sum>v\<leftarrow>xs. v * v) - n * (c * c)"
    by (simp add: power2_eq_square algebra_simps)
  finally have "(\<Sum>v\<leftarrow>xs. (v - c)\<^sup>2) / n = (\<Sum>v\<leftarrow>xs. v * v) / n - c * c"
    using n by (simp add: diff_divide_distrib)
  then show ?thesis
    by (simp add: popVariance_def average_def[of "map f xs" for f] n_def c_def)
qed

lemma col_samples:
  assumes "j < wd"
  shows "col (samples m x y wd ht) j = Inr (samples m (x + j) y 1 ht)"
  using assms by (simp add: col_def samples_def list_all_iff)

lemma row_samples:
  assumes "i < ht"
  shows "row (samples m x y wd ht) i = Inr (samples m x (y + i) wd 1)"
  using assms by (simp add: row_def samples_def)

lemma samples_nth:
  "i < ht \<Longrightarrow> j < wd \<Longrightarrow> samples m x y wd ht ! i ! j = m ! (y + i) ! (x + j)"
  by (simp add: samples_def)

lemma absdiff_samples:
  "cv_absdiff (samples m x y wd ht) (samples m x' y' wd ht)
     = Inr (map (\<lambda>i. map (\<lambda>j. \<bar>m ! (y + i) ! (x + j) - m ! (y' + i) ! (x' + j)\<bar>) [0..<wd]) [0..<ht])"
  unfolding cv_absdiff_def cv_binop_wf[OF wf_samples wf_samples]
  by (simp add: samples_nth)

lemma foldl_add_sum_list:
  fixes xs :: "real list"
  shows "foldl (\<lambda>a b. a + b) a xs = a + sum_list xs"
  by (induction xs arbitrary: a) simp_all

lemma offsetsFrom_filter:
  assumes "gridSize dvd off"
  shows "offsetsFrom off blockSize = filter (\<lambda>k. gridSize dvd k) [off..<blockSize]"
  using assms
proof (induction off blockSize rule: offsetsFrom.induct)
  case (1 off blockSize)
  show ?case
  proof (cases "off < blockSize")
    case False
    then show ?thesis by (simp add: offsetsFrom.simps[of off])
  next
    case True
    have d: "gridSize dvd off + gridSize" using 1(2) by simp
    have none: "filter (\<lambda>k. gridSize dvd k) [Suc off..<min (off + gridSize) blockSize] = []"
    proof -
      have "\<not> gridSize dvd k" if "off < k" "k < off + gridSize" for k
      proof
        assume "gridSize dvd k"
        then have "gridSize dvd k - off" using 1(2) by (simp add: dvd_diff_nat)
        moreover have "0 < k - off" "k - off < gridSize" using that by simp_all
        ultimately show False by (simp add: nat_dvd_not_less)
      qed
      then show ?thesis by (auto simp: filter_empty_conv)
    qed
    have split: "[off..<blockSize] = off # [Suc off..<min (off + gridSize) blockSize]
                   @ [min (off + gridSize) blockSize..<blockSize]"
    proof -
      define mid where "mid = min (off + gridSize) blockSize"
      have "Suc off \<le> mid" "mid \<le> blockSize"
        using True by (simp_all add: mid_def gridSize_def)
      then have "[Suc off..<blockSize] = [Suc off..<mid] @ [mid..<blockSize]"
        using upt_add_eq_append[of "Suc off" mid "blockSize - mid"] by simp
      then show ?thesis
        using True by (simp add: upt_conv_Cons mid_def)
    qed
    have rest: "filter (\<lambda>k. gridSize dvd k) [min (off + gridSize) blockSize..<blockSize]
                = filter (\<lambda>k. gridSize dvd k) [off + gridSize..<blockSize]"
      by (simp add: min_def)
    show ?thesis
      using True 1(1)[OF True d] 1(2)
      by (subst offsetsFrom.simps, subst split) (simp add: none rest del: upt_Suc)
  qed
qed

lemma offsetsFrom_0: "offsetsFrom 0 blockSize = subCellOffsets blockSize"
  by (simp add: offsetsFrom_filter subCellOffsets_def)

lemma right_edge_mean:
  assumes "wf_mat w h gray" "x0 + gridSize < w" "y0 + gridSize \<le> h"
  shows "bindE (col (samples gray x0 y0 gridSize gridSize) (gridSize - 1)) (\<lambda>rightCol.
           bindE (roi gray (Rect (int (x0 + gridSize)) (int y0) 1 (int gridSize))) (\<lambda>nextCol.
           bindE (cv_absdiff rightCol nextCol) (\<lambda>tmp.
             Inr [cv_mean tmp])))
         = Inr [boundaryDiff gray (RightEdge x0 y0)]"
proof -
  have h: "0 < h" using assms(3) by (simp add: gridSize_def)
  have g7: "gridSize - 1 < gridSize" by (simp add: gridSize_def)
  have pos: "x0 + (gridSize - 1) = x0 + gridSize - 1" by (simp add: gridSize_def)
  have "x0 + gridSize + 1 \<le> w" using assms(2) by simp
  from roi_wf[OF assms(1) this assms(3) h]
  have r: "roi gray (Rect (int (x0 + gridSize)) (int y0) 1 (int gridSize))
               = Inr (samples gray (x0 + gridSize) y0 1 gridSize)"
    by simp
  have c: "col (samples gray x0 y0 gridSize gridSize) (gridSize - 1)
             = Inr (samples gray (x0 + gridSize - 1) y0 1 gridSize)"
    using col_samples[OF g7, of gray x0 y0 gridSize] by (simp only: pos)
  have m: "cv_mean (map (\<lambda>i. map (\<lambda>j. \<bar>gray ! (y0 + i) ! (x0 + gridSize - 1 + j)
                                         - gray ! (y0 + i) ! (x0 + gridSize + j)\<bar>) [0..<1]) [0..<gridSize])
           = boundaryDiff gray (RightEdge x0 y0)"
    unfolding cv_mean_grid by (simp add: average_def)
  show ?thesis
    by (subst c, subst bindE_Inr, subst r, subst bindE_Inr, subst absdiff_samples, subst bindE_Inr,
        subst m) (rule refl)
qed

lemma bottom_edge_mean:
  assumes "wf_mat w h gray" "x0 + gridSize \<le> w" "y0 + gridSize < h"
  shows "bindE (row (samples gray x0 y0 gridSize gridSize) (gridSize - 1)) (\<lambda>bottomRow.
           bindE (roi gray (Rect (int x0) (int (y0 + gridSize)) (int gridSize) 1)) (\<lambda>nextRow.
           bindE (cv_absdiff bottomRow nextRow) (\<lambda>tmp.
             Inr [cv_mean tmp])))
         = Inr [boundaryDiff gray (BottomEdge x0 y0)]"
proof -
  have h: "0 < h" using assms(3) by simp
  have g7: "gridSize - 1 < gridSize" by (simp add: gridSize_def)
  have pos: "y0 + (gridSize - 1) = y0 + gridSize - 1" by (simp add: gridSize_def)
  have "y0 + gridSize + 1 \<le> h" using assms(3) by simp
  from roi_wf[OF assms(1) assms(2) this h]
  have r: "roi gray (Rect (int x0) (int (y0 + gridSize)) (int gridSize) 1)
               = Inr (samples gray x0 (y0 + gridSize) gridSize 1)"
    by simp
  have c: "row (samples gray x0 y0 gridSize gridSize) (gridSize - 1)
             = Inr (samples gray x0 (y0 + gridSize - 1) gridSize 1)"
    using row_samples[OF g7, of gray x0 y0 gridSize] by (simp only: pos)
  have m: "cv_mean (map (\<lambda>i. map (\<lambda>j. \<bar>gray ! (y0 + gridSize - 1 + i) ! (x0 + j)
                                         - gray ! (y0 + gridSize + i) ! (x0 + j)\<bar>) [0..<gridSize]) [0..<1])
           = boundaryDiff gray (BottomEdge x0 y0)"
    unfolding cv_mean_grid by (simp add: average_def)
  show ?thesis
    by (subst c, subst bindE_Inr, subst r, subst bindE_Inr, subst absdiff_samples, subst bindE_Inr,
        subst m) (rule refl)
qed

lemma cellDiffs_wf:
  assumes "wf_mat w h gray"
  shows "cellDiffs gray w h y0 x0
           = Inr (map (boundaryDiff gray) (filter (boundaryInside w h) (cellBoundaries y0 x0)))"
proof (cases "y0 + gridSize > h \<or> x0 + gridSize > w")
  case True
  then show ?thesis by (auto simp: cellDiffs_def cellBoundaries_def)
next
  case False
  then have in_y: "y0 + gridSize \<le> h" and in_x: "x0 + gridSize \<le> w" by simp_all
  have h: "0 < h" using in_y by (simp add: gridSize_def)
  have blk: "roi gray (Rect (int x0) (int y0) (int gridSize) (int gridSize))
               = Inr (samples gray x0 y0 gridSize gridSize)"
    by (rule roi_wf[OF assms in_x in_y h])
  have unf: "cellDiffs gray w h y0 x0 =
        bindE (if x0 + gridSize < w then
                  bindE (col (samples gray x0 y0 gridSize gridSize) (gridSize - 1)) (\<lambda>rightCol.
                  bindE (roi gray (Rect (int (x0 + gridSize)) (int y0) 1 (int gridSize))) (\<lambda>nextCol.
                  bindE (cv_absdiff rightCol nextCol) (\<lambda>tmp.
                  Inr [cv_mean tmp])))
               else Inr []) (\<lambda>vertical.
        bindE (if y0 + gridSize < h then
                  bindE (row (samples gray x0 y0 gridSize gridSize) (gridSize - 1)) (\<lambda>bottomRow.
                  bindE (roi gray (Rect (int x0) (int (y0 + gridSize)) (int gridSize) 1)) (\<lambda>nextRow.
                  bindE (cv_absdiff bottomRow nextRow) (\<lambda>tmp.
                  Inr [cv_mean tmp])))
               else Inr []) (\<lambda>horizontal.
        Inr (vertical @ horizontal)))"
    by (subst cellDiffs_def, subst if_not_P[OF False], subst blk, subst bindE_Inr) (rule refl)
  have flt: "filter (boundaryInside w h) (cellBoundaries y0 x0)
      = (if x0 + gridSize < w then [RightEdge x0 y0] else [])
        @ (if y0 + gridSize < h then [BottomEdge x0 y0] else [])"
    using in_x in_y by (simp add: cellBoundaries_def)
  show ?thesis
  proof (cases "x0 + gridSize < w")
    case v: True
    show ?thesis
    proof (cases "y0 + gridSize < h")
      case True
      show ?thesis
        by (subst unf, subst flt, subst if_P[OF v], subst if_P[OF True],
            subst right_edge_mean[OF assms v in_y], subst bottom_edge_mean[OF assms in_x True])
           (simp add: v True)
    next
      case False
      show ?thesis
        by (subst unf, subst flt, subst if_P[OF v], subst if_not_P[OF False],
            subst right_edge_mean[OF assms v in_y])
           (simp add: v False)
    qed
  next
    case v: False
    show ?thesis
    proof (cases "y0 + gridSize < h")
      case True
      show ?thesis
        by (subst unf, subst flt, subst if_not_P[OF v], subst if_P[OF True],
            subst bottom_edge_mean[OF assms in_x True])
           (simp add: v True)
    next
      case False
      show ?thesis
        by (subst unf, subst flt, subst if_not_P[OF v], subst if_not_P[OF False])
           (simp add: v False)
    qed
  qed
qed

lemma blockDiffs_wf:
  assumes "wf_mat w h gray"
  shows "blockDiffs gray w h blockSize by bx
           = Inr (map (boundaryDiff gray) (blockBoundaries w h blockSize by bx))"
proof -
  let ?cell = "\<lambda>yOff xOff. map (boundaryDiff gray)
        (filter (boundaryInside w h) (cellBoundaries (by * blockSize + yOff) (bx * blockSize + xOff)))"
  have inner: "allE (map (\<lambda>xOff. cellDiffs gray w h (by * blockSize + yOff) (bx * blockSize + xOff))
                   (subCellOffsets blockSize))
               = Inr (map (?cell yOff) (subCellOffsets blockSize))" for yOff
    by (rule allE_map_Inr) (rule cellDiffs_wf[OF assms])
  have outer: "allE (map (\<lambda>yOff. Inr (concat (map (?cell yOff) (subCellOffsets blockSize))))
                   (subCellOffsets blockSize))
               = Inr (map (\<lambda>yOff. concat (map (?cell yOff) (subCellOffsets blockSize)))
                       (subCellOffsets blockSize))"
    by (rule allE_map_Inr) (rule refl)
  have "blockDiffs gray w h blockSize by bx
         = Inr (concat (map (\<lambda>yOff. concat (map (?cell yOff) (subCellOffsets blockSize)))
                       (subCellOffsets blockSize)))"
    by (subst blockDiffs_def, subst offsetsFrom_0, subst offsetsFrom_0, subst inner,
        subst bindE_Inr, subst outer, subst bindE_Inr) (rule refl)
  also have "concat (map (\<lambda>yOff. concat (map (?cell yOff) (subCellOffsets blockSize)))
                       (subCellOffsets blockSize))
             = map (boundaryDiff gray) (blockBoundaries w h blockSize by bx)"
    by (simp add: blockBoundaries_def map_concat filter_concat o_def)
  finally show ?thesis .
qed

lemma gridScore_wf:
  assumes "wf_mat w h gray"
  shows "gridScore gray w h blockSize by bx
           = Inr (if blockBoundaries w h blockSize by bx = [] then 0
                  else average (map (boundaryDiff gray) (blockBoundaries w h blockSize by bx)))"
  by (simp add: gridScore_def blockDiffs_wf[OF assms] foldl_add_sum_list average_def)

lemma pixel_index_bound:
  fixes py px w h :: nat
  assumes "py < h" "px < w"
  shows "(py * w + px) * 4 < 4 * w * h"
proof -
  have "py * w + px < py * w + w" using assms(2) by simp
  also have "\<dots> = Suc py * w" by simp
  also have "\<dots> \<le> h * w" using assms(1) by (intro mult_le_mono1) simp
  finally show ?thesis by (simp add: mult.commute)
qed

lemma elaPixel_wf:
  assumes "length origData = 4 * w * h" "length newData = 4 * w * h"
  shows "elaPixel origData newData w h py px
           = Inr (if py < h \<and> px < w then redDiff origData newData w py px else 0)"
proof (cases "py < h \<and> px < w")
  case True
  then have "(py * w + px) * 4 < 4 * w * h" using pixel_index_bound by blast
  then have "js_index origData (int ((py * w + px) * 4)) = Some (origData ! ((py * w + px) * 4))"
    and "js_index newData (int ((py * w + px) * 4)) = Some (newData ! ((py * w + px) * 4))"
    using assms by (simp_all add: js_index_def del: of_nat_mult of_nat_add)
  then show ?thesis
    using True by (simp add: elaPixel_def redDiff_def Let_def del: of_nat_mult of_nat_add)
next
  case False
  then show ?thesis by (auto simp: elaPixel_def)
qed

lemma clipped_sum_list:
  fixes f :: "nat \<Rightarrow> real"
  shows "(\<Sum>k\<leftarrow>[0..<b]. if a + k < n then f (a + k) else 0) = (\<Sum>p\<leftarrow>[a..<min (a + b) n]. f p)"
proof (induction b)
  case 0
  then show ?case by simp
next
  case (Suc b)
  show ?case
  proof (cases "a + b < n")
    case True
    then have "[a..<min (a + Suc b) n] = [a..<min (a + b) n] @ [a + b]"
      by (simp add: min_def)
    then show ?thesis using Suc True by simp
  next
    case False
    then have "min (a + Suc b) n = min (a + b) n" by (simp add: min_def)
    then show ?thesis using Suc False by simp
  qed
qed

lemma elaScore_wf:
  assumes "length origData = 4 * w * h" "length newData = 4 * w * h"
  shows "elaScore origData newData w h blockSize by bx
           = Inr (clippedRedSum origData newData w h blockSize by bx / real (blockSize * blockSize))"
proof -
  let ?summand = "\<lambda>yy xx. if by * blockSize + yy < h \<and> bx * blockSize + xx < w
                  then redDiff origData newData w (by * blockSize + yy) (bx * blockSize + xx) else 0"
  have inner: "allE (map (\<lambda>xx. elaPixel origData newData w h (by * blockSize + yy) (bx * blockSize + xx))
                    [0..<blockSize])
               = Inr (map (?summand yy) [0..<blockSize])" for yy
    by (rule allE_map_Inr) (rule elaPixel_wf[OF assms])
  have outer: "allE (map (\<lambda>yy. Inr (sum_list (map (?summand yy) [0..<blockSize]))) [0..<blockSize])
               = Inr (map (\<lambda>yy. sum_list (map (?summand yy) [0..<blockSize])) [0..<blockSize])"
    by (rule allE_map_Inr) (rule refl)
  have score: "elaScore origData newData w h blockSize by bx
         = Inr ((\<Sum>yy\<leftarrow>[0..<blockSize]. \<Sum>xx\<leftarrow>[0..<blockSize]. ?summand yy xx)
                / real (blockSize * blockSize))"
    by (subst elaScore_def, subst inner, subst bindE_Inr, subst outer, subst bindE_Inr,
        subst Let_def) (rule refl)
  have row: "(\<Sum>xx\<leftarrow>[0..<blockSize]. ?summand yy xx)
        = (if by * blockSize + yy < h
           then (\<Sum>px\<leftarrow>[bx * blockSize..<min (bx * blockSize + blockSize) w].
                   redDiff origData newData w (by * blockSize + yy) px)
           else 0)" for yy
    using clipped_sum_list[of "bx * blockSize" w
            "\<lambda>px. redDiff origData newData w (by * blockSize + yy) px" blockSize]
    by simp
  have "(\<Sum>yy\<leftarrow>[0..<blockSize]. \<Sum>xx\<leftarrow>[0..<blockSize]. ?summand yy xx)
        = clippedRedSum origData newData w h blockSize by bx"
    unfolding row clippedRedSum_def
    by (rule clipped_sum_list)
  then show ?thesis using score by simp
qed

lemma hasShape_nth:
  "hasShape byC bxC m \<Longrightarrow> by < byC \<Longrightarrow> length (m ! by) = bxC"
  by (simp add: hasShape_def list_all_length)

lemma hasShape_grid: "hasShape byC bxC (map (\<lambda>by. map (\<lambda>bx. g by bx) [0..<bxC]) [0..<byC])"
  by (simp add: hasShape_def list_all_iff)

lemma hasShape_map_map: "hasShape byC bxC m \<Longrightarrow> hasShape byC bxC (map (map f) m)"
  by (simp add: hasShape_def list_all_iff)

lemma hasShape_eq_grid:
  assumes "hasShape byC bxC m"
  shows "m = map (\<lambda>by. map (\<lambda>bx. m ! by ! bx) [0..<bxC]) [0..<byC]"
  using assms
  by (auto simp: hasShape_def list_all_length intro!: nth_equalityI)

lemma flat_mem:
  assumes "by < length m" "bx < length (m ! by)"
  shows "m ! by ! bx \<in> set (flat m)"
  using assms unfolding flat_def by (metis nth_mem set_concat UN_I)

lemma minMax_range:
  assumes "v \<in> set xs"
  shows "0 \<le> minMax xs v" "minMax xs v < 1"
proof -
  have lo: "Min (set xs) \<le> v" and hi: "v \<le> Max (set xs)"
    using assms by simp_all
  have eps: "(0::real) < 1 / 10 ^ 8" by simp
  have den: "0 < Max (set xs) - Min (set xs) + 1 / 10 ^ 8"
    using lo hi eps by linarith
  show "0 \<le> minMax xs v"
    unfolding minMax_def using lo den by (intro divide_nonneg_pos) simp_all
  have "v - Min (set xs) < Max (set xs) - Min (set xs) + 1 / 10 ^ 8"
    using hi eps by linarith
  then show "minMax xs v < 1"
    unfolding minMax_def using den by (simp only: divide_less_eq_1_pos)
qed

lemma normalize_eq: "normalizeMap m = map (map (minMax (flat m))) m"
proof (cases "flat m = []")
  case True
  then have "\<forall>r\<in>set m. r = []" by (simp add: flat_def)
  then have "map (map f) m = m" for f :: "real \<Rightarrow> real"
    by (induction m) simp_all
  then show ?thesis using True by (simp add: normalizeMap_def)
next
  case False
  then show ?thesis
    by (simp add: normalizeMap_def Let_def minMax_def[abs_def])
qed

lemma normalize_nth:
  assumes "by < length m" "bx < length (m ! by)"
  shows "normalizeMap m ! by ! bx = minMax (flat m) (m ! by ! bx)"
  using assms by (simp add: normalize_eq)

lemma hasShape_normalize: "hasShape byC bxC m \<Longrightarrow> hasShape byC bxC (normalizeMap m)"
  by (simp add: normalize_eq hasShape_map_map)

lemma hasShape_invert: "hasShape byC bxC m \<Longrightarrow> hasShape byC bxC (invert m)"
  by (simp add: invert_def hasShape_map_map)

lemma invert_nth:
  assumes "by < length m" "bx < length (m ! by)"
  shows "invert m ! by ! bx = 1 - m ! by ! bx"
  using assms by (simp add: invert_def)

lemma map_enumerate:
  "map (\<lambda>(i, x). f i x) (enumerate 0 xs) = map (\<lambda>i. f i (xs ! i)) [0..<length xs]"
  by (rule nth_equalityI) (simp_all add: nth_enumerate_eq)

lemma at2_shape:
  assumes "hasShape byC bxC m" "by < byC" "bx < bxC"
  shows "at2 m by bx = Inr (m ! by ! bx)"
  using assms by (simp add: at2_def hasShape_def list_all_length)

lemma compositeMap_wf:
  assumes "hasShape byC bxC vN" "hasShape byC bxC gN" "hasShape byC bxC pN" "hasShape byC bxC eN"
  shows "compositeMap vN gN pN eN
           = Inr (map (\<lambda>by. map (\<lambda>bx. (vN ! by ! bx + gN ! by ! bx + pN ! by ! bx + eN ! by ! bx) / 4)
                         [0..<bxC]) [0..<byC])"
proof -
  have len: "length vN = byC" using assms(1) by (simp add: hasShape_def)
  have rowE: "allE (map (\<lambda>bx. bindE (at2 gN by bx) (\<lambda>g. bindE (at2 pN by bx) (\<lambda>p.
                      bindE (at2 eN by bx) (\<lambda>e. Inr ((vN ! by ! bx + g + p + e) / 4)))))
                 [0..<bxC])
        = Inr (map (\<lambda>bx. (vN ! by ! bx + gN ! by ! bx + pN ! by ! bx + eN ! by ! bx) / 4) [0..<bxC])"
    if "by < byC" for "by"
    using that assms by (intro allE_map_Inr) (simp add: at2_shape)
  have "compositeMap vN gN pN eN
      = allE (map (\<lambda>by. allE (map (\<lambda>bx. bindE (at2 gN by bx) (\<lambda>g. bindE (at2 pN by bx) (\<lambda>p.
                      bindE (at2 eN by bx) (\<lambda>e. Inr ((vN ! by ! bx + g + p + e) / 4)))))
                 [0..<length (vN ! by)])) [0..<length vN])"
    unfolding compositeMap_def by (simp add: map_enumerate)
  also have "\<dots> = Inr (map (\<lambda>by. map (\<lambda>bx. (vN ! by ! bx + gN ! by ! bx + pN ! by ! bx + eN ! by ! bx) / 4)
                         [0..<bxC]) [0..<byC])"
    unfolding len
    using rowE hasShape_nth[OF assms(1)]
    by (intro allE_map_Inr) simp
  finally show ?thesis .
qed

lemma varScore_wf:
  assumes "wf_mat w h gray" "0 < blockSize" "by < byCount h blockSize" "bx < bxCount w blockSize"
  shows "varScore gray w h blockSize by bx
           = Inr (meanSqMinusSqMean (blockSamples gray w h blockSize by bx))"
  unfolding varScore_def meanSqMinusSqMean_def by (rule regionVariance_aux[OF assms])

lemma prnuScore_wf:
  assumes "wf_mat w h residual" "0 < blockSize" "by < byCount h blockSize" "bx < bxCount w blockSize"
  shows "prnuScore residual w h blockSize by bx
           = Inr (meanSqMinusSqMean (blockSamples residual w h blockSize by bx))"
  unfolding prnuScore_def meanSqMinusSqMean_def by (rule regionVariance_aux[OF assms])

lemma varMap_wf:
  assumes "wf_mat w h gray" "0 < blockSize"
  shows "varMap gray w h blockSize
           = Inr (map (\<lambda>by. map (\<lambda>bx. meanSqMinusSqMean (blockSamples gray w h blockSize by bx))
                         [0..<bxCount w blockSize]) [0..<byCount h blockSize])"
  unfolding varMap_def by (rule blockMap_Inr) (rule varScore_wf[OF assms])

lemma prnuMap_wf:
  assumes "wf_mat w h residual" "0 < blockSize"
  shows "prnuMap residual w h blockSize
           = Inr (map (\<lambda>by. map (\<lambda>bx. meanSqMinusSqMean (blockSamples residual w h blockSize by bx))
                         [0..<bxCount w blockSize]) [0..<byCount h blockSize])"
  unfolding prnuMap_def by (rule blockMap_Inr) (rule prnuScore_wf[OF assms])

lemma gridMap_wf:
  assumes "wf_mat w h gray"
  shows "gridMap gray w h blockSize
           = Inr (map (\<lambda>by. map (\<lambda>bx. if blockBoundaries w h blockSize by bx = [] then 0
                     else average (map (boundaryDiff gray) (blockBoundaries w h blockSize by bx)))
                         [0..<bxCount w blockSize]) [0..<byCount h blockSize])"
  unfolding gridMap_def by (rule blockMap_Inr) (rule gridScore_wf[OF assms])

lemma elaMap_wf:
  assumes "length origData = 4 * w * h" "length newData = 4 * w * h"
  shows "elaMap origData newData w h blockSize
           = Inr (map (\<lambda>by. map (\<lambda>bx. clippedRedSum origData newData w h blockSize by bx
                                        / real (blockSize * blockSize))
                         [0..<bxCount w blockSize]) [0..<byCount h blockSize])"
  unfolding elaMap_def by (rule blockMap_Inr) (rule elaScore_wf[OF assms])

lemma cv_subtract_wf:
  assumes "wf_mat w h a" "wf_mat w h b"
  shows "cv_subtract a b = Inr (difference w h a b)"
  unfolding cv_subtract_def difference_def by (rule cv_binop_wf[OF assms])

lemma wf_difference: "wf_mat w h (difference w h a b)"
  by (simp add: difference_def wf_mat_def list_all_iff)

lemma onload_wf:
  assumes "0 < w" "0 < h" "0 < blockSize" "wf_mat w h gray" "wf_mat w h (fst (denoise cv gray))"
  shows "onload cv w h gray origData blockSize thresholdPercent
          = Inr \<lparr>p_w = w, p_h = h, p_blockSize = blockSize, p_thresholdPercent = thresholdPercent,
                 p_varMap = map (\<lambda>by. map (\<lambda>bx. meanSqMinusSqMean (blockSamples gray w h blockSize by bx))
                         [0..<bxCount w blockSize]) [0..<byCount h blockSize],
                 p_gridMap = map (\<lambda>by. map (\<lambda>bx. if blockBoundaries w h blockSize by bx = [] then 0
                     else average (map (boundaryDiff gray) (blockBoundaries w h blockSize by bx)))
                         [0..<bxCount w blockSize]) [0..<byCount h blockSize],
                 p_prnuMap = map (\<lambda>by. map (\<lambda>bx. meanSqMinusSqMean
                        (blockSamples (difference w h gray (fst (denoise cv gray))) w h blockSize by bx))
                         [0..<bxCount w blockSize]) [0..<byCount h blockSize],
                 p_origData = origData, p_console = snd (denoise cv gray)\<rparr>"
  using assms
  by (simp add: onload_def varMap_wf gridMap_wf split_def Let_def cv_subtract_wf prnuMap_wf wf_difference)

lemma elaMap_grid:
  assumes "length origData = 4 * w * h" "length newData = 4 * w * h"
  shows "elaMap origData newData w h blockSize = Inr (elaGrid origData newData w h blockSize)"
  unfolding elaGrid_def by (rule elaMap_wf[OF assms])

lemma hasShape_elaGrid:
  "hasShape (byCount h blockSize) (bxCount w blockSize) (elaGrid origData newData w h blockSize)"
  unfolding elaGrid_def by (rule hasShape_grid)

lemma hasShape_length: "hasShape byC bxC m \<Longrightarrow> length m = byC"
  by (simp add: hasShape_def)

lemma fuse_wf:
  assumes "hasShape byC bxC vm" "hasShape byC bxC gm" "hasShape byC bxC pm" "hasShape byC bxC em"
  shows "compositeMap (invert (normalizeMap vm)) (invert (normalizeMap gm)) (invert (normalizeMap pm)) (normalizeMap em)
           = Inr (fusionMap vm gm pm em byC bxC)"
proof -
  have entry: "(invert (normalizeMap vm) ! by ! bx + invert (normalizeMap gm) ! by ! bx
                 + invert (normalizeMap pm) ! by ! bx + normalizeMap em ! by ! bx) / 4
               = fusion vm gm pm em by bx"
    if "by < byC" "bx < bxC" for "by" bx
  proof -
    have in_range: "by < length m" "bx < length (m ! by)"
                   "by < length (normalizeMap m)" "bx < length (normalizeMap m ! by)"
      if "hasShape byC bxC m" for m
      using that \<open>by < byC\<close> \<open>bx < bxC\<close> hasShape_normalize[OF that]
      by (simp_all add: hasShape_def list_all_length)
    show ?thesis
      using in_range[OF assms(1)] in_range[OF assms(2)] in_range[OF assms(3)] in_range[OF assms(4)]
      by (simp add: invert_nth normalize_nth fusion_def field_simps)
  qed
  have "compositeMap (invert (normalizeMap vm)) (invert (normalizeMap gm)) (invert (normalizeMap pm)) (normalizeMap em)
      = Inr (map (\<lambda>by. map (\<lambda>bx. (invert (normalizeMap vm) ! by ! bx + invert (normalizeMap gm) ! by ! bx
                 + invert (normalizeMap pm) ! by ! bx + normalizeMap em ! by ! bx) / 4) [0..<bxC]) [0..<byC])"
    using assms by (intro compositeMap_wf hasShape_invert hasShape_normalize)
  also have "map (\<lambda>by. map (\<lambda>bx. (invert (normalizeMap vm) ! by ! bx + invert (normalizeMap gm) ! by ! bx
                 + invert (normalizeMap pm) ! by ! bx + normalizeMap em ! by ! bx) / 4) [0..<bxC]) [0..<byC]
           = fusionMap vm gm pm em byC bxC"
    unfolding fusionMap_def using entry by simp
  finally show ?thesis .
qed

lemma fusion_range:
  assumes "hasShape byC bxC vm" "hasShape byC bxC gm" "hasShape byC bxC pm" "hasShape byC bxC em"
    and "by < byC" "bx < bxC"
  shows "0 \<le> fusion vm gm pm em by bx" "fusion vm gm pm em by bx \<le> 1"
proof -
  have mem: "m ! by ! bx \<in> set (flat m)" if "hasShape byC bxC m" for m :: scoreMap
    using that assms(5,6) by (intro flat_mem) (simp_all add: hasShape_def list_all_length)
  note r = minMax_range[OF mem[OF assms(1)]] minMax_range[OF mem[OF assms(2)]]
           minMax_range[OF mem[OF assms(3)]] minMax_range[OF mem[OF assms(4)]]
  define a where "a = minMax (flat vm) (vm ! by ! bx)"
  define b where "b = minMax (flat gm) (gm ! by ! bx)"
  define c where "c = minMax (flat pm) (pm ! by ! bx)"
  define d where "d = minMax (flat em) (em ! by ! bx)"
  have bounds: "0 \<le> a" "a < 1" "0 \<le> b" "b < 1" "0 \<le> c" "c < 1" "0 \<le> d" "d < 1"
    using r by (simp_all add: a_def b_def c_def d_def)
  have f: "fusion vm gm pm em by bx = (1 - a) / 4 + (1 - b) / 4 + (1 - c) / 4 + d / 4"
    by (simp add: fusion_def a_def b_def c_def d_def)
  show "0 \<le> fusion vm gm pm em by bx" unfolding f using bounds by (simp add: field_simps)
  show "fusion vm gm pm em by bx \<le> 1" unfolding f using bounds by (simp add: field_simps)
qed

lemma onload2_wf:
  assumes "hasShape (byCount (p_h p) (p_blockSize p)) (bxCount (p_w p) (p_blockSize p)) (p_varMap p)"
    and "hasShape (byCount (p_h p) (p_blockSize p)) (bxCount (p_w p) (p_blockSize p)) (p_gridMap p)"
    and "hasShape (byCount (p_h p) (p_blockSize p)) (bxCount (p_w p) (p_blockSize p)) (p_prnuMap p)"
    and "length (p_origData p) = 4 * p_w p * p_h p" "length newData = 4 * p_w p * p_h p"
  shows "onload2 p newData =
     (let composite = fusionMap (p_varMap p) (p_gridMap p) (p_prnuMap p)
                        (elaGrid (p_origData p) newData (p_w p) (p_h p) (p_blockSize p))
                        (byCount (p_h p) (p_blockSize p)) (bxCount (p_w p) (p_blockSize p));
          t = thr composite (p_thresholdPercent p)
      in Inr \<lparr>o_composite = composite, o_thr = t, o_mask = highlightMask composite t,
               o_rects = fillRects (p_blockSize p) composite t, o_console = p_console p\<rparr>)"
  by (simp add: onload2_def elaMap_grid[OF assms(4,5)] Let_def
        fuse_wf[OF assms(1,2,3) hasShape_elaGrid])

subsection \<open>Rounding to doubles\<close>

lemma pow2_pos [simp]: "0 < pow2 e"
  by (simp add: pow2_def)

lemma pow2_neq0 [simp]: "pow2 e \<noteq> 0"
  by (simp add: pow2_def)

lemma pow2_nonneg [simp]: "0 \<le> pow2 e"
  by (simp add: pow2_def)

lemma pow2_0 [simp]: "pow2 0 = 1"
  by (simp add: pow2_def)

lemma pow2_1 [simp]: "pow2 1 = 2"
  by (simp add: pow2_def)

lemma pow2_Suc: "pow2 (e + 1) = 2 * pow2 e"
proof (cases "0 \<le> e")
  case True
  then show ?thesis by (simp add: pow2_def nat_add_distrib)
next
  case False
  then have "nat (- e) = Suc (nat (- (e + 1)))" by simp
  then show ?thesis using False by (simp add: pow2_def)
qed

lemma pow2_pred: "pow2 (e - 1) = pow2 e / 2"
  using pow2_Suc[of "e - 1"] by simp

lemma pow2_add_nat: "pow2 (e + int n) = pow2 e * 2 ^ n"
proof (induction n)
  case 0
  then show ?case by simp
next
  case (Suc n)
  have "pow2 (e + int (Suc n)) = pow2 ((e + int n) + 1)" by (simp add: ac_simps)
  then show ?case using Suc by (simp add: pow2_Suc)
qed

lemma pow2_nat: "pow2 (int n) = 2 ^ n"
  using pow2_add_nat[of 0 n] by simp

lemma pow2_add: "pow2 (a + b) = pow2 a * pow2 b"
proof (cases "0 \<le> b")
  case True
  then show ?thesis using pow2_add_nat[of a "nat b"] pow2_nat[of "nat b"] by simp
next
  case False
  then have b: "b = - int (nat (- b))" by simp
  have "pow2 a = pow2 ((a + b) + int (nat (- b)))" using False by simp
  also have "\<dots> = pow2 (a + b) * 2 ^ nat (- b)" by (rule pow2_add_nat)
  finally have 1: "pow2 a = pow2 (a + b) * 2 ^ nat (- b)" .
  have "pow2 0 = pow2 (b + int (nat (- b)))" using False by simp
  also have "\<dots> = pow2 b * 2 ^ nat (- b)" by (rule pow2_add_nat)
  finally have 2: "1 = pow2 b * 2 ^ nat (- b)" by simp
  have "pow2 a * pow2 b = pow2 (a + b) * (pow2 b * 2 ^ nat (- b))"
    by (subst 1) (simp add: mult_ac)
  then show ?thesis using 2 by simp
qed

lemma pow2_mono: "a \<le> b \<Longrightarrow> pow2 a \<le> pow2 b"
proof -
  assume "a \<le> b"
  then have "pow2 b = pow2 a * 2 ^ nat (b - a)"
    using pow2_add_nat[of a "nat (b - a)"] by simp
  moreover have "(1::real) \<le> 2 ^ nat (b - a)" by simp
  ultimately show ?thesis
    by (metis mult.right_neutral mult_left_mono pow2_pos less_eq_real_def)
qed

lemma pow2_strict_mono: "a < b \<Longrightarrow> pow2 a < pow2 b"
proof -
  assume "a < b"
  then have "a + 1 \<le> b" by simp
  then have "pow2 (a + 1) \<le> pow2 b" by (rule pow2_mono)
  then show ?thesis using pow2_pos[of a] unfolding pow2_Suc by linarith
qed

lemma pow2_less_imp: "pow2 a < pow2 b \<Longrightarrow> a < b"
  using pow2_mono[of b a] by (cases "a < b") simp_all

lemma expoUp_bounds:
  "1 \<le> x \<Longrightarrow> pow2 (expoUp x) \<le> x \<and> x < pow2 (expoUp x + 1)"
proof (induction x rule: expoUp.induct)
  case (1 x)
  show ?case
  proof (cases "x < 2")
    case True
    then have "expoUp x = 0" by (simp add: expoUp.simps[of x])
    then show ?thesis using True 1(2) by simp
  next
    case False
    then have "1 \<le> x / 2" by simp
    from 1(1)[OF False this]
    have ih: "pow2 (expoUp (x / 2)) \<le> x / 2" "x / 2 < pow2 (expoUp (x / 2) + 1)"
      by simp_all
    have e: "expoUp x = expoUp (x / 2) + 1" using False by (simp add: expoUp.simps[of x])
    show ?thesis
      unfolding e
      using ih pow2_Suc[of "expoUp (x / 2)"] pow2_Suc[of "expoUp (x / 2) + 1"]
      by linarith
  qed
qed

lemma expoDown_bounds:
  "0 < x \<Longrightarrow> x < 1 \<Longrightarrow> pow2 (expoDown x) \<le> x \<and> x < pow2 (expoDown x + 1)"
proof (induction x rule: expoDown.induct)
  case (1 x)
  have c: "0 < x \<and> x < 1" using 1(2,3) by simp
  have e: "expoDown x = expoDown (2 * x) - 1" using c by (simp add: expoDown.simps[of x])
  show ?case
  proof (cases "2 * x < 1")
    case True
    have "0 < 2 * x" using 1(2) by simp
    from 1(1)[OF c this True]
    have ih: "pow2 (expoDown (2 * x)) \<le> 2 * x" "2 * x < pow2 (expoDown (2 * x) + 1)"
      by simp_all
    show ?thesis
      unfolding e
      using ih pow2_pred[of "expoDown (2 * x)"] pow2_Suc[of "expoDown (2 * x)"]
      by simp
  next
    case False
    then have z: "expoDown (2 * x) = 0" by (simp add: expoDown.simps[of "2 * x"])
    have "pow2 (- 1) = 1 / 2" by (simp add: pow2_def)
    then show ?thesis
      unfolding e z using c False by simp
  qed
qed

lemma expo_bounds:
  assumes "0 < x"
  shows "pow2 (expo x) \<le> x" "x < pow2 (expo x + 1)"
  using assms expoUp_bounds[of x] expoDown_bounds[of x]
  by (auto simp: expo_def not_le)

lemma expo_unique:
  assumes "0 < x" "pow2 e \<le> x" "x < pow2 (e + 1)"
  shows "expo x = e"
proof -
  have "pow2 (expo x) < pow2 (e + 1)" using expo_bounds(1)[OF assms(1)] assms(3) by simp
  then have "expo x < e + 1" by (rule pow2_less_imp)
  moreover have "pow2 e < pow2 (expo x + 1)" using expo_bounds(2)[OF assms(1)] assms(2) by simp
  then have "e < expo x + 1" by (rule pow2_less_imp)
  ultimately show ?thesis by simp
qed


lemma expo_mono:
  assumes "0 < x" "x \<le> y"
  shows "expo x \<le> expo y"
proof -
  have "0 < y" using assms by simp
  have "pow2 (expo x) < pow2 (expo y + 1)"
    using expo_bounds(1)[OF assms(1)] expo_bounds(2)[OF \<open>0 < y\<close>] assms(2) by linarith
  then have "expo x < expo y + 1" by (rule pow2_less_imp)
  then show ?thesis by simp
qed

lemma pow2_diff: "pow2 (a - b) = pow2 a / pow2 b"
proof -
  have "pow2 a = pow2 ((a - b) + b)" by simp
  also have "\<dots> = pow2 (a - b) * pow2 b" by (rule pow2_add)
  finally show ?thesis using pow2_pos[of b] by (simp add: field_simps)
qed

lemma pow2_int: "0 \<le> e \<Longrightarrow> pow2 e = of_int (2 ^ nat e)"
  by (simp add: pow2_def)

lemma roundEven_of_int [simp]: "roundEven (of_int n) = n"
  by (simp add: roundEven_def)

lemma roundEven_bounds: "\<lfloor>y\<rfloor> \<le> roundEven y" "roundEven y \<le> \<lfloor>y\<rfloor> + 1"
  by (simp_all add: roundEven_def Let_def)

lemma roundEven_mono:
  assumes "a \<le> b"
  shows "roundEven a \<le> roundEven b"
proof (cases "\<lfloor>a\<rfloor> = \<lfloor>b\<rfloor>")
  case True
  have "a - of_int \<lfloor>b\<rfloor> \<le> b - of_int \<lfloor>b\<rfloor>" using assms by simp
  then show ?thesis
    unfolding roundEven_def Let_def True by auto
next
  case False
  have "\<lfloor>a\<rfloor> \<le> \<lfloor>b\<rfloor>" using assms by (rule floor_mono)
  then have "\<lfloor>a\<rfloor> + 1 \<le> \<lfloor>b\<rfloor>" using False by simp
  then show ?thesis
    using roundEven_bounds(2)[of a] roundEven_bounds(1)[of b] by linarith
qed

lemma rd_pos:
  assumes "0 < x"
  shows "rd x = of_int (roundEven (x / pow2 (ulpExp x))) * pow2 (ulpExp x)"
  using assms by (simp add: rd_def Let_def)

lemma rd_0 [simp]: "rd 0 = 0"
  by (simp add: rd_def)

lemma rd_nonneg:
  assumes "0 \<le> x"
  shows "0 \<le> rd x"
proof (cases "x = 0")
  case True
  then show ?thesis by simp
next
  case False
  then have x: "0 < x" using assms by simp
  have "0 \<le> x / pow2 (ulpExp x)" using x by simp
  then have "roundEven 0 \<le> roundEven (x / pow2 (ulpExp x))" by (rule roundEven_mono)
  then have "0 \<le> roundEven (x / pow2 (ulpExp x))" using roundEven_of_int[of 0] by simp
  then show ?thesis unfolding rd_pos[OF x] by simp
qed

lemma rd_exact:
  assumes "0 < i" "i < 2 ^ 53" "- 1074 \<le> j"
  shows "rd (of_int i * pow2 j) = of_int i * pow2 j"
proof -
  let ?x = "of_int i * pow2 j :: real"
  have x: "0 < ?x" using assms(1) by simp
  have ax: "\<bar>?x\<bar> = ?x" using x by simp
  let ?e = "expo ?x"
  let ?k = "ulpExp ?x"
  have "of_int i < (2 ^ 53 :: real)"
    using assms(2) by (metis of_int_less_iff of_int_numeral of_int_power)
  then have "?x < 2 ^ 53 * pow2 j" by simp
  also have "\<dots> = pow2 (j + 53)" using pow2_add_nat[of j 53] by simp
  finally have "pow2 ?e < pow2 (j + 53)" using expo_bounds(1)[OF x] by linarith
  then have "?e < j + 53" by (rule pow2_less_imp)
  then have kj: "?k \<le> j" using assms(3) by (simp add: ulpExp_def ax)
  then have n: "0 \<le> j - ?k" by simp
  have "?x / pow2 ?k = of_int i * pow2 (j - ?k)" by (simp add: pow2_diff)
  also have "\<dots> = of_int (i * 2 ^ nat (j - ?k))" by (simp add: pow2_int[OF n])
  finally have q: "?x / pow2 ?k = of_int (i * 2 ^ nat (j - ?k))" .
  have "rd ?x = of_int (roundEven (?x / pow2 ?k)) * pow2 ?k" by (rule rd_pos[OF x])
  also have "\<dots> = of_int (i * 2 ^ nat (j - ?k)) * pow2 ?k"
    by (subst q, subst roundEven_of_int) (rule refl)
  also have "\<dots> = (?x / pow2 ?k) * pow2 ?k" by (subst q) (rule refl)
  also have "\<dots> = ?x" by simp
  finally show ?thesis .
qed

lemma rd_mono:
  assumes "0 \<le> x" "x \<le> y"
  shows "rd x \<le> rd y"
proof (cases "x = 0")
  case True
  then show ?thesis using rd_nonneg[of y] assms by simp
next
  case False
  then have x: "0 < x" using assms by simp
  then have y: "0 < y" using assms by simp
  have ax: "\<bar>x\<bar> = x" "\<bar>y\<bar> = y" using x y by simp_all
  let ?kx = "ulpExp x" and ?ky = "ulpExp y"
  have e: "expo x \<le> expo y" by (rule expo_mono[OF x assms(2)])
  then have k: "?kx \<le> ?ky" by (simp add: ulpExp_def ax)
  show ?thesis
  proof (cases "?kx = ?ky")
    case True
    have "x / pow2 ?ky \<le> y / pow2 ?ky" using assms(2) by (simp add: divide_right_mono)
    then have "roundEven (x / pow2 ?ky) \<le> roundEven (y / pow2 ?ky)" by (rule roundEven_mono)
    then have "of_int (roundEven (x / pow2 ?ky)) * pow2 ?ky
                 \<le> (of_int (roundEven (y / pow2 ?ky)) :: real) * pow2 ?ky"
      by (simp add: mult_right_mono)
    then show ?thesis unfolding rd_pos[OF x] rd_pos[OF y] True .
  next
    case False
    then have lt: "?kx < ?ky" using k by simp
    then have ky: "?ky = expo y - 52" and exy: "expo x < expo y"
      by (simp_all add: ulpExp_def ax max_def split: if_splits)
    let ?ey = "expo y"
    have n: "0 \<le> ?ey - ?kx" using lt ky by simp
    have "pow2 (expo x + 1) \<le> pow2 ?ey" using exy by (intro pow2_mono) simp
    then have "x \<le> pow2 ?ey" using expo_bounds(2)[OF x] by linarith
    then have "x / pow2 ?kx \<le> pow2 ?ey / pow2 ?kx" by (simp add: divide_right_mono)
    also have "\<dots> = of_int (2 ^ nat (?ey - ?kx))"
      using pow2_diff[of ?ey ?kx] pow2_int[OF n] by simp
    finally have "roundEven (x / pow2 ?kx) \<le> roundEven (of_int (2 ^ nat (?ey - ?kx)))"
      by (rule roundEven_mono)
    then have "roundEven (x / pow2 ?kx) \<le> 2 ^ nat (?ey - ?kx)"
      by (subst (asm) roundEven_of_int)
    then have "(of_int (roundEven (x / pow2 ?kx)) :: real) \<le> of_int (2 ^ nat (?ey - ?kx))"
      by (subst of_int_le_iff)
    then have "of_int (roundEven (x / pow2 ?kx)) * pow2 ?kx
                 \<le> (of_int (2 ^ nat (?ey - ?kx)) :: real) * pow2 ?kx"
      by (simp add: mult_right_mono)
    also have "\<dots> = pow2 (?ey - ?kx) * pow2 ?kx" by (subst pow2_int[OF n]) (rule refl)
    also have "\<dots> = pow2 ?ey" using pow2_add[of "?ey - ?kx" ?kx] by simp
    finally have low: "rd x \<le> pow2 ?ey" unfolding rd_pos[OF x] .
    have "pow2 ?ey / pow2 ?ky \<le> y / pow2 ?ky"
      using expo_bounds(1)[OF y] by (simp add: divide_right_mono)
    moreover have "pow2 ?ey / pow2 ?ky = of_int (2 ^ 52)"
      using pow2_diff[of ?ey ?ky] pow2_int[of 52] by (simp add: ky)
    ultimately have "of_int (2 ^ 52) \<le> y / pow2 ?ky" by simp
    then have "roundEven (of_int (2 ^ 52)) \<le> roundEven (y / pow2 ?ky)" by (rule roundEven_mono)
    then have "2 ^ 52 \<le> roundEven (y / pow2 ?ky)"
      by (subst (asm) roundEven_of_int)
    then have "(of_int (2 ^ 52) :: real) \<le> of_int (roundEven (y / pow2 ?ky))"
      by (subst of_int_le_iff)
    then have a: "(of_int (2 ^ 52) :: real) * pow2 ?ky \<le> of_int (roundEven (y / pow2 ?ky)) * pow2 ?ky"
      by (simp add: mult_right_mono)
    have b: "(of_int (2 ^ 52) :: real) * pow2 ?ky = pow2 ?ey"
      using pow2_add[of 52 ?ky] pow2_int[of 52] by (simp add: ky)
    from a have "pow2 ?ey \<le> of_int (roundEven (y / pow2 ?ky)) * pow2 ?ky"
      unfolding b .
    then have "pow2 ?ey \<le> rd y" unfolding rd_pos[OF y] .
    then show ?thesis using low by linarith
  qed
qed

lemma rd_of_nat:
  assumes "n < 2 ^ 53"
  shows "rd (real n) = real n"
proof (cases "n = 0")
  case True
  then show ?thesis by simp
next
  case False
  have "int n < 2 ^ 53" using assms by (metis of_nat_less_iff of_nat_numeral of_nat_power)
  then have "rd (of_int (int n) * pow2 0) = of_int (int n) * pow2 0"
    using False by (intro rd_exact) simp_all
  then show ?thesis by simp
qed

lemma floor_rd_div_100:
  assumes "k < 2 ^ 45"
  shows "\<lfloor>rd (real k / 100)\<rfloor> = int (k div 100)"
proof -
  let ?m = "k div 100"
  have m45: "?m < 2 ^ 45" using assms by (meson div_le_dividend le_less_trans)
  then have m53: "?m < 2 ^ 53" by simp
  have lo: "real ?m \<le> real k / 100"
    by (metis floor_divide_of_nat_eq of_int_floor_le of_int_of_nat_eq of_nat_numeral)
  have "rd (real ?m) \<le> rd (real k / 100)" by (rule rd_mono[OF _ lo]) simp
  then have low: "real ?m \<le> rd (real k / 100)" unfolding rd_of_nat[OF m53] .
  let ?i = "128 * int ?m + 127"
  have "k = 100 * ?m + k mod 100" by simp
  moreover have "k mod 100 \<le> 99" by (simp add: less_Suc_eq_le[symmetric])
  ultimately have "k \<le> 100 * ?m + 99" by linarith
  then have "real k \<le> 100 * real ?m + 99" by (metis of_nat_le_iff of_nat_add of_nat_mult of_nat_numeral)
  then have up: "real k / 100 \<le> of_int ?i * pow2 (- 7)"
    by (simp add: pow2_def field_simps)
  have "int ?m < 2 ^ 45" using m45 by (metis of_nat_less_iff of_nat_numeral of_nat_power)
  then have i53: "?i < 2 ^ 53" by simp
  have "rd (real k / 100) \<le> rd (of_int ?i * pow2 (- 7))" by (rule rd_mono[OF _ up]) simp
  also have "\<dots> = of_int ?i * pow2 (- 7)" by (rule rd_exact[OF _ i53]) simp_all
  also have "\<dots> < real ?m + 1" by (simp add: pow2_def field_simps)
  finally have high: "rd (real k / 100) < real ?m + 1" .
  show ?thesis using low high by (simp add: floor_eq_iff)
qed

subsection \<open>The filled rectangles and the double index\<close>

lemma fillRects_by_index:
  "fillRects blockSize composite t =
     concat (map (\<lambda>by.
       concat (map (\<lambda>bx.
         if js_ge (composite ! by ! bx) t
         then [(bx * blockSize, by * blockSize, blockSize, blockSize)] else [])
         [0..<length (composite ! by)]))
       [0..<length composite])"
  unfolding fillRects_def by (subst map_enumerate, subst map_enumerate) (rule refl)

lemma fillRects_mem:
  assumes "0 < blockSize" "by < length composite" "bx < length (composite ! by)"
  shows "(bx * blockSize, by * blockSize, blockSize, blockSize) \<in> set (fillRects blockSize composite t)
           \<longleftrightarrow> js_ge (composite ! by ! bx) t"
  unfolding fillRects_by_index using assms by (auto split: if_splits)

lemma fillRects_blocks:
  assumes "r \<in> set (fillRects blockSize composite t)"
  shows "\<exists>by < length composite. \<exists>bx < length (composite ! by).
           r = (bx * blockSize, by * blockSize, blockSize, blockSize) \<and> js_ge (composite ! by ! bx) t"
  using assms unfolding fillRects_by_index by (fastforce split: if_splits)

lemma rowRects_length:
  "length (concat (map (\<lambda>(bx, score). if P score then [g bx] else []) (enumerate n scores)))
     = length (filter P scores)"
  by (induction scores arbitrary: n) simp_all

lemma fillRects_length:
  "length (fillRects blockSize composite t)
     = length (filter (\<lambda>score. js_ge score t) (flat composite))"
proof -
  have "length (concat (map (\<lambda>(by, row).
       concat (map (\<lambda>(bx, score).
         if js_ge score t then [(bx * blockSize, by * blockSize, blockSize, blockSize)] else [])
         (enumerate 0 row)))
       (enumerate n composite))) = length (filter (\<lambda>score. js_ge score t) (concat composite))" for n
  proof (induction composite arbitrary: n)
    case Nil
    then show ?case by simp
  next
    case (Cons scores rest)
    show ?case
      using Cons[of "Suc n"]
        rowRects_length[of "\<lambda>score. js_ge score t"
           "\<lambda>bx. (bx * blockSize, n * blockSize, blockSize, blockSize)" 0 scores]
      by simp
  qed
  then show ?thesis by (simp add: fillRects_def flat_def)
qed

lemma thrIndexDouble_range:
  assumes "0 \<le> p" "p \<le> 100" "length (flat composite) < 2 ^ 32"
  shows "0 \<le> thrIndexDouble composite p" "thrIndexDouble composite p \<le> int (length (flat composite))"
proof -
  let ?N = "length (flat composite)"
  have len: "length (flatC composite) = ?N" by (simp add: flatC_def)
  have n53: "?N < 2 ^ 53" "100 * ?N < 2 ^ 53" using assms(3) by simp_all
  have prod0: "0 \<le> real ?N * p" using assms(1) by simp
  have "real ?N * p \<le> real ?N * 100" using assms(2) by (intro mult_left_mono) simp_all
  then have "real ?N * p \<le> real (100 * ?N)" by simp
  then have "rd (real ?N * p) \<le> rd (real (100 * ?N))" by (rule rd_mono[OF prod0])
  then have "rd (real ?N * p) \<le> real (100 * ?N)" unfolding rd_of_nat[OF n53(2)] .
  then have q: "rd (real ?N * p) / 100 \<le> real ?N" by simp
  have q0: "0 \<le> rd (real ?N * p) / 100" using rd_nonneg[OF prod0] by simp
  have "rd (rd (real ?N * p) / 100) \<le> rd (real ?N)" by (rule rd_mono[OF q0 q])
  then have hi: "rd (rd (real ?N * p) / 100) \<le> real ?N" unfolding rd_of_nat[OF n53(1)] .
  have lo: "0 \<le> rd (rd (real ?N * p) / 100)" by (rule rd_nonneg[OF q0])
  show "0 \<le> thrIndexDouble composite p"
    unfolding thrIndexDouble_def len using lo by simp
  have "\<lfloor>rd (rd (real ?N * p) / 100)\<rfloor> \<le> \<lfloor>real ?N\<rfloor>" using hi by (rule floor_mono)
  then show "thrIndexDouble composite p \<le> int ?N"
    unfolding thrIndexDouble_def len by simp
qed

lemma thrIndexDouble_whole:
  assumes "n \<le> 100" "length (flat composite) < 2 ^ 32"
  shows "thrIndexDouble composite (real n) = int (length (flat composite) * n div 100)"
    and "thrIndex composite (real n) = int (length (flat composite) * n div 100)"
proof -
  let ?N = "length (flat composite)"
  have len: "length (flatC composite) = ?N" by (simp add: flatC_def)
  have "?N * n \<le> ?N * 100" using assms(1) by simp
  also have "\<dots> < 2 ^ 32 * 100" using assms(2) by simp
  finally have b: "?N * n < 2 ^ 45" "?N * n < 2 ^ 53" by simp_all
  have "rd (real ?N * real n) = rd (real (?N * n))" by simp
  also have "\<dots> = real (?N * n)" by (rule rd_of_nat[OF b(2)])
  finally have p: "rd (real ?N * real n) = real (?N * n)" .
  show "thrIndexDouble composite (real n) = int (?N * n div 100)"
    unfolding thrIndexDouble_def len p by (rule floor_rd_div_100[OF b(1)])
  have "\<lfloor>real (?N * n) / real (100::nat)\<rfloor> = int (?N * n div 100)"
    by (rule floor_divide_of_nat_eq)
  then show "thrIndex composite (real n) = int (?N * n div 100)"
    unfolding thrIndex_def len by simp
qed


lemma rd_at:
  assumes "0 < x" "pow2 e \<le> x" "x < pow2 (e + 1)" "- 1022 \<le> e"
  shows "rd x = of_int (roundEven (x / pow2 (e - 52))) * pow2 (e - 52)"
proof -
  have "expo x = e" by (rule expo_unique[OF assms(1-3)])
  then have "ulpExp x = e - 52" using assms(1,4) by (simp add: ulpExp_def)
  then show ?thesis using rd_pos[OF assms(1)] by simp
qed

section \<open>The claims\<close>

text \<open>
  C1, as the code has it. For every composite map of \<open>N < 2\<^sup>3\<^sup>2\<close> blocks and every
  \<open>thresholdPercent\<close> in \<open>[0, 100]\<close>, the threshold is the element of the composite
  values, flattened and sorted ascending, at the 0-based index that line 180 computes in
  double arithmetic: the floor of the rounded quotient by 100 of the rounded product
  \<open>N * thresholdPercent\<close>. That index lies in \<open>0 .. N\<close>; the threshold is
  \<^verbatim>\<open>undefined\<close> when it equals \<open>N\<close>. For a whole-number \<open>thresholdPercent\<close>
  the index is \<open>floor (N * thresholdPercent / 100)\<close> exactly, and the threshold
  exists exactly when the map is not empty and \<open>thresholdPercent < 100\<close>. For a
  positive block size, the rectangle of block \<open>(by, bx)\<close> is filled exactly when
  its composite value is at least the threshold, which is also the entry of the
  highlight mask; no other rectangle is filled, and there are as many rectangles as
  values at least the threshold. For the values 0.1, 0.2, ..., 1.0 and
  \<open>thresholdPercent = 80\<close> the threshold is 0.9 and exactly the blocks with the values
  0.9 and 1.0 are marked.
\<close>

theorem C1_threshold_nearest_rank:
  assumes "0 \<le> thresholdPercent" "thresholdPercent \<le> 100"
    and "length (flat composite) < 2 ^ 32" and "0 < blockSize"
  shows "sorted (flatC composite) \<and> mset (flatC composite) = mset (flat composite)
    \<and> thrIndexDouble composite thresholdPercent
          = \<lfloor>rd (rd (real (length (flat composite)) * thresholdPercent) / 100)\<rfloor>
    \<and> 0 \<le> thrIndexDouble composite thresholdPercent
    \<and> thrIndexDouble composite thresholdPercent \<le> int (length (flat composite))
    \<and> thrDouble composite thresholdPercent =
          (if thrIndexDouble composite thresholdPercent < int (length (flat composite))
           then Some (flatC composite ! nat (thrIndexDouble composite thresholdPercent)) else None)
    \<and> (\<forall>n. thresholdPercent = real n \<longrightarrow>
          thrIndexDouble composite thresholdPercent
            = \<lfloor>real (length (flat composite)) * thresholdPercent / 100\<rfloor>
          \<and> thrIndexDouble composite thresholdPercent = int (length (flat composite) * n div 100)
          \<and> thrDouble composite thresholdPercent = thr composite thresholdPercent
          \<and> thrDouble composite thresholdPercent =
              (if 0 < length (flat composite) \<and> n < 100
               then Some (flatC composite ! (length (flat composite) * n div 100)) else None))
    \<and> (\<forall>by < length composite. \<forall>bx < length (composite ! by).
          ((bx * blockSize, by * blockSize, blockSize, blockSize)
              \<in> set (fillRects blockSize composite (thrDouble composite thresholdPercent))
            \<longleftrightarrow> (\<exists>t. thrDouble composite thresholdPercent = Some t \<and> t \<le> composite ! by ! bx))
          \<and> (highlightMask composite (thrDouble composite thresholdPercent) ! by ! bx
            \<longleftrightarrow> (\<exists>t. thrDouble composite thresholdPercent = Some t \<and> t \<le> composite ! by ! bx)))
    \<and> (\<forall>r \<in> set (fillRects blockSize composite (thrDouble composite thresholdPercent)).
          \<exists>by < length composite. \<exists>bx < length (composite ! by).
            r = (bx * blockSize, by * blockSize, blockSize, blockSize)
            \<and> (\<exists>t. thrDouble composite thresholdPercent = Some t \<and> t \<le> composite ! by ! bx))
    \<and> length (fillRects blockSize composite (thrDouble composite thresholdPercent))
         = length (filter (\<lambda>score. \<exists>t. thrDouble composite thresholdPercent = Some t \<and> t \<le> score)
                     (flat composite))
    \<and> thrDouble [[1 / 10, 2 / 10, 3 / 10, 4 / 10, 5 / 10], [6 / 10, 7 / 10, 8 / 10, 9 / 10, 1]] 80
          = Some (9 / 10)
    \<and> highlightMask [[1 / 10, 2 / 10, 3 / 10, 4 / 10, 5 / 10], [6 / 10, 7 / 10, 8 / 10, 9 / 10, 1]]
          (thrDouble [[1 / 10, 2 / 10, 3 / 10, 4 / 10, 5 / 10], [6 / 10, 7 / 10, 8 / 10, 9 / 10, 1]] 80)
          = [[False, False, False, False, False], [False, False, False, True, True]]
    \<and> fillRects 32 [[1 / 10, 2 / 10, 3 / 10, 4 / 10, 5 / 10], [6 / 10, 7 / 10, 8 / 10, 9 / 10, 1]]
          (thrDouble [[1 / 10, 2 / 10, 3 / 10, 4 / 10, 5 / 10], [6 / 10, 7 / 10, 8 / 10, 9 / 10, 1]] 80)
          = [(96, 32, 32, 32), (128, 32, 32, 32)]"
proof -
  let ?N = "length (flat composite)"
  let ?t = "thrDouble composite thresholdPercent"
  let ?ex = "[[1 / 10, 2 / 10, 3 / 10, 4 / 10, 5 / 10], [6 / 10, 7 / 10, 8 / 10, 9 / 10, 1 :: real]]"
  have ge: "js_ge score ?t \<longleftrightarrow> (\<exists>t. ?t = Some t \<and> t \<le> score)" for score
    by (simp add: js_ge_def split: option.splits)
  have srt: "sorted (flatC composite) \<and> mset (flatC composite) = mset (flat composite)"
    by (simp add: flatC_def)
  have len: "length (flatC composite) = ?N"
    by (simp add: flatC_def)
  have idx: "thrIndexDouble composite thresholdPercent
          = \<lfloor>rd (rd (real ?N * thresholdPercent) / 100)\<rfloor>"
    by (simp add: thrIndexDouble_def len)
  have lo: "0 \<le> thrIndexDouble composite thresholdPercent"
    and hi: "thrIndexDouble composite thresholdPercent \<le> int ?N"
    by (rule thrIndexDouble_range[OF assms(1-3)])+
  have sel: "?t =
          (if thrIndexDouble composite thresholdPercent < int ?N
           then Some (flatC composite ! nat (thrIndexDouble composite thresholdPercent)) else None)"
    using lo by (simp add: thrDouble_def js_index_def len)
  have whole: "\<forall>n. thresholdPercent = real n \<longrightarrow>
          thrIndexDouble composite thresholdPercent = \<lfloor>real ?N * thresholdPercent / 100\<rfloor>
          \<and> thrIndexDouble composite thresholdPercent = int (?N * n div 100)
          \<and> ?t = thr composite thresholdPercent
          \<and> ?t = (if 0 < ?N \<and> n < 100 then Some (flatC composite ! (?N * n div 100)) else None)"
  proof (intro allI impI)
    fix n
    assume p: "thresholdPercent = real n"
    then have n: "n \<le> 100" using assms(2) by simp
    note w = thrIndexDouble_whole[OF n assms(3)]
    have a: "thrIndexDouble composite thresholdPercent = \<lfloor>real ?N * thresholdPercent / 100\<rfloor>"
      using w by (simp add: p thrIndex_def len)
    have b: "thrIndexDouble composite thresholdPercent = int (?N * n div 100)"
      using w(1) by (simp add: p)
    have c: "?t = thr composite thresholdPercent"
      using w by (simp add: p thrDouble_def thr_def)
    have "?N * n div 100 < ?N \<longleftrightarrow> 0 < ?N \<and> n < 100"
    proof (cases "0 < ?N \<and> n < 100")
      case True
      then have "?N * n < ?N * 100" by simp
      then have "?N * n div 100 < ?N" by (simp add: less_mult_imp_div_less)
      then show ?thesis using True by simp
    next
      case False
      then have "?N = 0 \<or> n = 100" using n by auto
      then show ?thesis using False by auto
    qed
    then have d: "?t = (if 0 < ?N \<and> n < 100 then Some (flatC composite ! (?N * n div 100)) else None)"
      unfolding sel b by simp
    show "thrIndexDouble composite thresholdPercent = \<lfloor>real ?N * thresholdPercent / 100\<rfloor>
          \<and> thrIndexDouble composite thresholdPercent = int (?N * n div 100)
          \<and> ?t = thr composite thresholdPercent
          \<and> ?t = (if 0 < ?N \<and> n < 100 then Some (flatC composite ! (?N * n div 100)) else None)"
      by (intro conjI a b c d)
  qed
  have mark: "\<forall>by < length composite. \<forall>bx < length (composite ! by).
          ((bx * blockSize, by * blockSize, blockSize, blockSize)
              \<in> set (fillRects blockSize composite ?t)
            \<longleftrightarrow> (\<exists>t. ?t = Some t \<and> t \<le> composite ! by ! bx))
          \<and> (highlightMask composite ?t ! by ! bx
            \<longleftrightarrow> (\<exists>t. ?t = Some t \<and> t \<le> composite ! by ! bx))"
  proof (intro allI impI)
    fix "by" bx
    assume a: "by < length composite" and b: "bx < length (composite ! by)"
    have "highlightMask composite ?t ! by ! bx \<longleftrightarrow> js_ge (composite ! by ! bx) ?t"
      using a b by (simp add: highlightMask_def)
    then show "((bx * blockSize, by * blockSize, blockSize, blockSize)
              \<in> set (fillRects blockSize composite ?t)
            \<longleftrightarrow> (\<exists>t. ?t = Some t \<and> t \<le> composite ! by ! bx))
          \<and> (highlightMask composite ?t ! by ! bx
            \<longleftrightarrow> (\<exists>t. ?t = Some t \<and> t \<le> composite ! by ! bx))"
      unfolding fillRects_mem[OF assms(4) a b] ge by simp
  qed
  have only: "\<forall>r \<in> set (fillRects blockSize composite ?t).
          \<exists>by < length composite. \<exists>bx < length (composite ! by).
            r = (bx * blockSize, by * blockSize, blockSize, blockSize)
            \<and> (\<exists>t. ?t = Some t \<and> t \<le> composite ! by ! bx)"
    using fillRects_blocks[of _ blockSize composite ?t] unfolding ge by blast
  have cnt: "length (fillRects blockSize composite ?t)
         = length (filter (\<lambda>score. \<exists>t. ?t = Some t \<and> t \<le> score) (flat composite))"
    unfolding fillRects_length ge ..
  have "thrIndexDouble ?ex (real 80) = int (length (flat ?ex) * 80 div 100)"
    by (rule thrIndexDouble_whole(1)) (simp_all add: flat_def)
  then have i: "thrIndexDouble ?ex 80 = 8" by (simp add: flat_def)
  have ex1: "thrDouble ?ex 80 = Some (9 / 10)"
    unfolding thrDouble_def i by (simp add: flatC_def flat_def js_index_def)
  have ex2: "highlightMask ?ex (thrDouble ?ex 80)
          = [[False, False, False, False, False], [False, False, False, True, True]]"
    unfolding ex1 by (simp add: highlightMask_def js_ge_def)
  have ex3: "fillRects 32 ?ex (thrDouble ?ex 80) = [(96, 32, 32, 32), (128, 32, 32, 32)]"
    unfolding ex1 by (simp add: fillRects_def js_ge_def enumerate_eq_zip upt_rec)
  show ?thesis
    by (intro conjI srt[THEN conjunct1] srt[THEN conjunct2] idx lo hi sel whole mark only cnt
          ex1 ex2 ex3)
qed

theorem C1_threshold_nearest_rank_witness:
  "(0::real) \<le> 50 \<and> (50::real) \<le> 100
   \<and> length (flat [[4, 1], [3, 2 :: real]]) < 2 ^ 32 \<and> (0::nat) < 16
   \<and> thrIndexDouble [[4, 1], [3, 2]] 50 = 2
   \<and> thrDouble [[4, 1], [3, 2]] 50 = Some 3
   \<and> highlightMask [[4, 1], [3, 2]] (thrDouble [[4, 1], [3, 2]] 50) ! 0 ! 0 = True
   \<and> highlightMask [[4, 1], [3, 2]] (thrDouble [[4, 1], [3, 2]] 50) ! 1 ! 1 = False
   \<and> ((0, 0, 16, 16) \<in> set (fillRects 16 [[4, 1], [3, 2]] (thrDouble [[4, 1], [3, 2]] 50))) = True
   \<and> ((16, 16, 16, 16) \<in> set (fillRects 16 [[4, 1], [3, 2]] (thrDouble [[4, 1], [3, 2]] 50))) = False
   \<and> length (fillRects 16 [[4, 1], [3, 2]] (thrDouble [[4, 1], [3, 2]] 50)) = 2"
proof -
  let ?c = "[[4, 1], [3, 2 :: real]]"
  have h: "(0::real) \<le> 50" "(50::real) \<le> 100" "length (flat ?c) < 2 ^ 32" "(0::nat) < 16"
    by (simp_all add: flat_def)
  have s: "flatC ?c = [1, 2, 3, 4]"
    by (simp add: flatC_def flat_def)
  note inst = C1_threshold_nearest_rank[OF h]
  from inst have w: "\<forall>n. (50::real) = real n \<longrightarrow>
          thrIndexDouble ?c 50 = int (length (flat ?c) * n div 100)
          \<and> thrDouble ?c 50 =
              (if 0 < length (flat ?c) \<and> n < 100
               then Some (flatC ?c ! (length (flat ?c) * n div 100)) else None)"
    by blast
  have i: "thrIndexDouble ?c 50 = 2" and t: "thrDouble ?c 50 = Some 3"
    using w[rule_format, of 50] by (simp_all add: flat_def s)
  from inst have m: "\<forall>by < length ?c. \<forall>bx < length (?c ! by).
          ((bx * 16, by * 16, 16, 16) \<in> set (fillRects 16 ?c (thrDouble ?c 50))
            \<longleftrightarrow> (\<exists>t. thrDouble ?c 50 = Some t \<and> t \<le> ?c ! by ! bx))
          \<and> (highlightMask ?c (thrDouble ?c 50) ! by ! bx
            \<longleftrightarrow> (\<exists>t. thrDouble ?c 50 = Some t \<and> t \<le> ?c ! by ! bx))"
    by blast
  from inst have "length (fillRects 16 ?c (thrDouble ?c 50))
         = length (filter (\<lambda>score. \<exists>t. thrDouble ?c 50 = Some t \<and> t \<le> score) (flat ?c))"
    by blast
  then have n: "length (fillRects 16 ?c (thrDouble ?c 50)) = 2"
    by (simp add: t flat_def)
  show ?thesis
    using h i t n m[rule_format, of 0 0] m[rule_format, of 1 1] by (simp add: t)
qed

text \<open>
  C1 as stated, with the index \<open>floor (N * thresholdPercent / 100)\<close> of exact
  arithmetic, fails for a percentage that is not a whole number. The double
  83.33333333333333 is \<open>5864062014805333 / 2\<^sup>4\<^sup>6\<close>, just below \<open>500 / 6\<close>. For a
  map of 6 blocks the exact index is 4, but the product rounds to the double 500 and
  line 180 reads index 5: with the values 1 to 6 the threshold is 6, not 5, and one
  rectangle is filled, not two.
\<close>

theorem C1_counterexample:
  "rd (5864062014805333 / 70368744177664) = 5864062014805333 / 70368744177664
   \<and> (0::real) \<le> 5864062014805333 / 70368744177664
   \<and> (5864062014805333 / 70368744177664 :: real) \<le> 100
   \<and> length (flat [[1, 2, 3], [4, 5, 6 :: real]]) = 6
   \<and> \<lfloor>real (length (flat [[1, 2, 3], [4, 5, 6 :: real]])) * (5864062014805333 / 70368744177664) / 100\<rfloor> = 4
   \<and> thrIndexDouble [[1, 2, 3], [4, 5, 6]] (5864062014805333 / 70368744177664) = 5
   \<and> js_index (flatC [[1, 2, 3], [4, 5, 6]]) 4 = Some 5
   \<and> thrDouble [[1, 2, 3], [4, 5, 6]] (5864062014805333 / 70368744177664) = Some 6
   \<and> highlightMask [[1, 2, 3], [4, 5, 6]]
        (thrDouble [[1, 2, 3], [4, 5, 6]] (5864062014805333 / 70368744177664))
       = [[False, False, False], [False, False, True]]
   \<and> fillRects 32 [[1, 2, 3], [4, 5, 6]]
        (thrDouble [[1, 2, 3], [4, 5, 6]] (5864062014805333 / 70368744177664))
       = [(64, 32, 32, 32)]"
proof -
  let ?p = "5864062014805333 / 70368744177664 :: real"
  let ?c = "[[1, 2, 3], [4, 5, 6 :: real]]"
  have dp: "rd ?p = ?p"
    using rd_exact[of 5864062014805333 "- 46"] by (simp add: pow2_def)
  have len: "length (flat ?c) = 6" "length (flatC ?c) = 6" by (simp_all add: flat_def flatC_def)
  have fl: "\<lfloor>real (length (flat ?c)) * ?p / 100\<rfloor> = 4"
    unfolding len by simp
  have prod: "rd (real (6::nat) * ?p) = 500"
    using rd_at[of "real (6::nat) * ?p" 8] by (simp add: pow2_def roundEven_def)
  have "rd (500 / 100) = 5" using rd_of_nat[of 5] by simp
  then have i: "thrIndexDouble ?c ?p = 5"
    unfolding thrIndexDouble_def len prod by simp
  have s: "flatC ?c = [1, 2, 3, 4, 5, 6]" by (simp add: flatC_def flat_def)
  have e4: "js_index (flatC ?c) 4 = Some 5" unfolding s by (simp add: js_index_def)
  have t: "thrDouble ?c ?p = Some 6" unfolding thrDouble_def i s by (simp add: js_index_def)
  have m: "highlightMask ?c (thrDouble ?c ?p) = [[False, False, False], [False, False, True]]"
    unfolding t by (simp add: highlightMask_def js_ge_def)
  have r: "fillRects 32 ?c (thrDouble ?c ?p) = [(64, 32, 32, 32)]"
    unfolding t by (simp add: fillRects_def js_ge_def enumerate_eq_zip upt_rec)
  show ?thesis
    by (intro conjI dp len(1) fl i e4 t m r) simp_all
qed

text \<open>
  C10. For \<open>thresholdPercent = 100\<close> the computed index \<open>floor (N * 100 / 100) = N\<close>
  lies past the end of the sorted sequence, the selected threshold is the out-of-range
  element (\<^verbatim>\<open>undefined\<close>), no block satisfies \<open>composite[by][bx] \<ge> threshold\<close>,
  and the highlight mask is false everywhere: no rectangle is filled.
\<close>

theorem C10_percent_100_marks_nothing:
  "thrIndex composite 100 = int (length (flat composite))
   \<and> js_index (flatC composite) (int (length (flatC composite))) = None
   \<and> thr composite 100 = None
   \<and> highlightMask composite (thr composite 100) = map (map (\<lambda>score. False)) composite
   \<and> fillRects blockSize composite (thr composite 100) = []"
  by (simp add: thr_def thrIndex_def js_index_def highlightMask_def js_ge_def fillRects_def
        split_def flatC_def)

lemma blockSamples_nonempty:
  assumes "0 < blockSize" "by < byCount h blockSize" "bx < bxCount w blockSize"
  shows "blockSamples m w h blockSize by bx \<noteq> []"
proof -
  have y: "by * blockSize < h" and x: "bx * blockSize < w"
    using assms by (simp_all add: byCount_def bxCount_def count_less_iff)
  have "0 < clippedWidth w blockSize bx" "0 < clippedHeight h blockSize by"
    using clipped_bounds(1)[OF assms(1) x] clipped_bounds(1)[OF assms(1) y]
    by (simp_all add: clippedWidth_def clippedHeight_def)
  then have "length (blockSamples m w h blockSize by bx) \<noteq> 0"
    unfolding blockSamples_def samples_def concat_grid_length by simp
  then show ?thesis by auto
qed

lemma difference_nth:
  "i < h \<Longrightarrow> j < w \<Longrightarrow> difference w h a b ! i ! j = a ! i ! j - b ! i ! j"
  by (simp add: difference_def)

text \<open>
  C7. For each block, the score of the variance detector is the mean of the squared
  luminance minus the squared mean of the luminance over the clipped block region, which
  is the population variance of those samples. The residual-noise detector subtracts the
  denoised image from the original sample by sample and applies the same computation,
  block by block, to that residual.
\<close>

theorem C7_variance_and_residual_variance:
  assumes "wf_mat w h gray" "wf_mat w h (fst (denoise cv gray))" "0 < blockSize"
    and "by < byCount h blockSize" "bx < bxCount w blockSize"
  shows "varScore gray w h blockSize by bx
           = Inr (average (map (\<lambda>v. v * v) (blockSamples gray w h blockSize by bx))
                  - average (blockSamples gray w h blockSize by bx)
                    * average (blockSamples gray w h blockSize by bx))
    \<and> varScore gray w h blockSize by bx = Inr (popVariance (blockSamples gray w h blockSize by bx))
    \<and> cv_subtract gray (fst (denoise cv gray)) = Inr (difference w h gray (fst (denoise cv gray)))
    \<and> (\<forall>i < h. \<forall>j < w. difference w h gray (fst (denoise cv gray)) ! i ! j
                            = gray ! i ! j - fst (denoise cv gray) ! i ! j)
    \<and> prnuScore (difference w h gray (fst (denoise cv gray))) w h blockSize by bx
         = Inr (average (map (\<lambda>v. v * v)
                   (blockSamples (difference w h gray (fst (denoise cv gray))) w h blockSize by bx))
                - average (blockSamples (difference w h gray (fst (denoise cv gray))) w h blockSize by bx)
                  * average (blockSamples (difference w h gray (fst (denoise cv gray))) w h blockSize by bx))
    \<and> prnuScore (difference w h gray (fst (denoise cv gray))) w h blockSize by bx
         = Inr (popVariance
                  (blockSamples (difference w h gray (fst (denoise cv gray))) w h blockSize by bx))
    \<and> (\<forall>m. prnuScore m w h blockSize by bx = varScore m w h blockSize by bx)
    \<and> (\<exists>p. onload cv w h gray origData blockSize thresholdPercent = Inr p
          \<and> p_varMap p ! by ! bx = popVariance (blockSamples gray w h blockSize by bx)
          \<and> p_prnuMap p ! by ! bx
              = popVariance
                  (blockSamples (difference w h gray (fst (denoise cv gray))) w h blockSize by bx))"
proof -
  let ?res = "difference w h gray (fst (denoise cv gray))"
  have y: "by * blockSize < h" and x: "bx * blockSize < w"
    using assms by (simp_all add: byCount_def bxCount_def count_less_iff)
  then have pos: "0 < w" "0 < h" by simp_all
  have ne: "blockSamples m w h blockSize by bx \<noteq> []" for m
    by (rule blockSamples_nonempty[OF assms(3,4,5)])
  have pv: "meanSqMinusSqMean (blockSamples m w h blockSize by bx)
              = popVariance (blockSamples m w h blockSize by bx)" for m
    by (simp add: meanSqMinusSqMean_def popVariance_eq[OF ne])
  have v1: "varScore gray w h blockSize by bx
           = Inr (average (map (\<lambda>v. v * v) (blockSamples gray w h blockSize by bx))
                  - average (blockSamples gray w h blockSize by bx)
                    * average (blockSamples gray w h blockSize by bx))"
    using varScore_wf[OF assms(1,3,4,5)] by (simp add: meanSqMinusSqMean_def)
  have v2: "varScore gray w h blockSize by bx = Inr (popVariance (blockSamples gray w h blockSize by bx))"
    using varScore_wf[OF assms(1,3,4,5)] by (simp add: pv)
  have s1: "cv_subtract gray (fst (denoise cv gray)) = Inr ?res"
    by (rule cv_subtract_wf[OF assms(1,2)])
  have s2: "\<forall>i < h. \<forall>j < w. ?res ! i ! j = gray ! i ! j - fst (denoise cv gray) ! i ! j"
    by (simp add: difference_nth)
  have p1: "prnuScore ?res w h blockSize by bx
         = Inr (average (map (\<lambda>v. v * v) (blockSamples ?res w h blockSize by bx))
                - average (blockSamples ?res w h blockSize by bx)
                  * average (blockSamples ?res w h blockSize by bx))"
    using prnuScore_wf[OF wf_difference assms(3,4,5)] by (simp add: meanSqMinusSqMean_def)
  have p2: "prnuScore ?res w h blockSize by bx = Inr (popVariance (blockSamples ?res w h blockSize by bx))"
    using prnuScore_wf[OF wf_difference assms(3,4,5)] by (simp add: pv)
  have same: "\<forall>m. prnuScore m w h blockSize by bx = varScore m w h blockSize by bx"
    by (simp add: prnuScore_def varScore_def)
  have run: "\<exists>p. onload cv w h gray origData blockSize thresholdPercent = Inr p
          \<and> p_varMap p ! by ! bx = popVariance (blockSamples gray w h blockSize by bx)
          \<and> p_prnuMap p ! by ! bx = popVariance (blockSamples ?res w h blockSize by bx)"
    using assms(4,5)
    by (simp add: onload_wf[OF pos assms(3,1,2)] pv)
  show ?thesis
    by (intro conjI v1 v2 s1 s2 p1 p2 same run)
qed

theorem C7_variance_and_residual_variance_witness:
  "wf_mat 2 2 [[1, 3], [5, 7]]
   \<and> wf_mat 2 2 (fst (denoise halvingEnv [[1, 3], [5, 7]]))
   \<and> (0::nat) < 2 \<and> 0 < byCount 2 2 \<and> 0 < bxCount 2 2
   \<and> varScore [[1, 3], [5, 7]] 2 2 2 0 0 = Inr 5
   \<and> fst (denoise halvingEnv [[1, 3], [5, 7]]) = [[1 / 2, 3 / 2], [5 / 2, 7 / 2]]
   \<and> prnuScore (difference 2 2 [[1, 3], [5, 7]] (fst (denoise halvingEnv [[1, 3], [5, 7]]))) 2 2 2 0 0
        = Inr (5 / 4)"
proof -
  have d: "fst (denoise halvingEnv [[1, 3], [5, 7]]) = [[1 / 2, 3 / 2], [5 / 2, 7 / 2]]"
    by (simp add: denoise_def halvingEnv_def)
  have h1: "wf_mat 2 2 [[1, 3], [5, 7]]" by (simp add: wf_mat_def)
  have h2: "wf_mat 2 2 (fst (denoise halvingEnv [[1, 3], [5, 7]]))" by (simp add: d wf_mat_def)
  have h3: "(0::nat) < 2" by simp
  have h4: "0 < byCount 2 2" "0 < bxCount 2 2" by (simp_all add: byCount_def bxCount_def)
  have b1: "blockSamples [[1, 3], [5, 7]] 2 2 2 0 0 = [1, 3, 5, 7]"
    by (simp add: blockSamples_def samples_def clippedWidth_def clippedHeight_def upt_rec)
  have b2: "blockSamples (difference 2 2 [[1, 3], [5, 7]] [[1 / 2, 3 / 2], [5 / 2, 7 / 2]]) 2 2 2 0 0
              = [1 / 2, 3 / 2, 5 / 2, 7 / 2]"
    by (simp add: blockSamples_def samples_def clippedWidth_def clippedHeight_def difference_def upt_rec)
  note inst = C7_variance_and_residual_variance[OF h1 h2 h3 h4, of "[]" 80]
  have v: "varScore [[1, 3], [5, 7]] 2 2 2 0 0 = Inr 5"
    using inst[THEN conjunct1] unfolding b1 by (simp add: average_def)
  have p: "prnuScore (difference 2 2 [[1, 3], [5, 7]] (fst (denoise halvingEnv [[1, 3], [5, 7]]))) 2 2 2 0 0
        = Inr (5 / 4)"
    using inst[THEN conjunct2, THEN conjunct2, THEN conjunct2, THEN conjunct2, THEN conjunct1]
    unfolding d b2 by (simp add: average_def)
  show ?thesis
    by (intro conjI h1 h2 h3 h4 v d p)
qed

lemma distinct_concat_map:
  assumes "distinct xs" "\<And>x. x \<in> set xs \<Longrightarrow> distinct (f x)"
    and "\<And>x y. x \<in> set xs \<Longrightarrow> y \<in> set xs \<Longrightarrow> x \<noteq> y \<Longrightarrow> set (f x) \<inter> set (f y) = {}"
  shows "distinct (concat (map f xs))"
  using assms
proof (induction xs)
  case Nil
  then show ?case by simp
next
  case (Cons a xs)
  have "set (f a) \<inter> (\<Union>x\<in>set xs. set (f x)) = {}"
    using Cons.prems by fastforce
  moreover have "distinct (concat (map f xs))"
    using Cons by simp
  ultimately show ?case
    using Cons.prems(2) by simp
qed

lemma set_subCellOffsets: "set (subCellOffsets blockSize) = {off. off < blockSize \<and> gridSize dvd off}"
  by (auto simp: subCellOffsets_def)

lemma distinct_subCellOffsets: "distinct (subCellOffsets blockSize)"
  by (simp add: subCellOffsets_def)

lemma set_blockBoundaries:
  "b \<in> set (blockBoundaries w h blockSize by bx) \<longleftrightarrow>
     boundaryInside w h b \<and>
     (\<exists>yOff xOff. yOff < blockSize \<and> gridSize dvd yOff \<and> xOff < blockSize \<and> gridSize dvd xOff \<and>
        (b = RightEdge (bx * blockSize + xOff) (by * blockSize + yOff)
         \<or> b = BottomEdge (bx * blockSize + xOff) (by * blockSize + yOff)))"
  by (auto simp: blockBoundaries_def cellBoundaries_def set_subCellOffsets)

lemma distinct_blockBoundaries: "distinct (blockBoundaries w h blockSize by bx)"
proof -
  have inner: "distinct (concat (map (\<lambda>xOff. cellBoundaries (by * blockSize + yOff) (bx * blockSize + xOff))
                   (subCellOffsets blockSize)))" for yOff
    by (intro distinct_concat_map distinct_subCellOffsets) (auto simp: cellBoundaries_def)
  have "distinct (concat (map (\<lambda>yOff.
          concat (map (\<lambda>xOff. cellBoundaries (by * blockSize + yOff) (bx * blockSize + xOff))
                   (subCellOffsets blockSize)))
          (subCellOffsets blockSize)))"
    by (intro distinct_concat_map distinct_subCellOffsets inner) (auto simp: cellBoundaries_def)
  then show ?thesis
    by (simp add: blockBoundaries_def)
qed

text \<open>
  C5. For each block, the grid-artifact score is the arithmetic mean, over every boundary
  of the block's 8-pixel sub-cells that lies fully inside the image (the right edge of a
  sub-cell, between its last column and the next column, and its bottom edge, between its
  last row and the next row), of the mean absolute difference between the two lines of
  samples along the boundary; every such boundary counts once, and a block without one
  scores exactly 0.
\<close>

theorem C5_grid_artifact_score:
  assumes "wf_mat w h gray"
  shows "gridScore gray w h blockSize by bx
           = Inr (if blockBoundaries w h blockSize by bx = [] then 0
                  else average (map (boundaryDiff gray) (blockBoundaries w h blockSize by bx)))
    \<and> (\<forall>b. b \<in> set (blockBoundaries w h blockSize by bx) \<longleftrightarrow>
          boundaryInside w h b \<and>
          (\<exists>yOff xOff. yOff < blockSize \<and> gridSize dvd yOff \<and> xOff < blockSize \<and> gridSize dvd xOff \<and>
             (b = RightEdge (bx * blockSize + xOff) (by * blockSize + yOff)
              \<or> b = BottomEdge (bx * blockSize + xOff) (by * blockSize + yOff))))
    \<and> distinct (blockBoundaries w h blockSize by bx)
    \<and> (blockBoundaries w h blockSize by bx = [] \<longrightarrow> gridScore gray w h blockSize by bx = Inr 0)
    \<and> (\<exists>gm. gridMap gray w h blockSize = Inr gm
          \<and> hasShape (byCount h blockSize) (bxCount w blockSize) gm
          \<and> (by < byCount h blockSize \<longrightarrow> bx < bxCount w blockSize \<longrightarrow>
               gridScore gray w h blockSize by bx = Inr (gm ! by ! bx)))"
proof -
  have score: "gridScore gray w h blockSize by bx
           = Inr (if blockBoundaries w h blockSize by bx = [] then 0
                  else average (map (boundaryDiff gray) (blockBoundaries w h blockSize by bx)))"
    by (rule gridScore_wf[OF assms])
  have mem: "\<forall>b. b \<in> set (blockBoundaries w h blockSize by bx) \<longleftrightarrow>
          boundaryInside w h b \<and>
          (\<exists>yOff xOff. yOff < blockSize \<and> gridSize dvd yOff \<and> xOff < blockSize \<and> gridSize dvd xOff \<and>
             (b = RightEdge (bx * blockSize + xOff) (by * blockSize + yOff)
              \<or> b = BottomEdge (bx * blockSize + xOff) (by * blockSize + yOff)))"
    using set_blockBoundaries by blast
  have zero: "blockBoundaries w h blockSize by bx = [] \<longrightarrow> gridScore gray w h blockSize by bx = Inr 0"
    by (simp add: score)
  have gm: "\<exists>gm. gridMap gray w h blockSize = Inr gm
          \<and> hasShape (byCount h blockSize) (bxCount w blockSize) gm
          \<and> (by < byCount h blockSize \<longrightarrow> bx < bxCount w blockSize \<longrightarrow>
               gridScore gray w h blockSize by bx = Inr (gm ! by ! bx))"
    by (simp add: gridMap_wf[OF assms] hasShape_grid score)
  show ?thesis
    by (intro conjI score mem distinct_blockBoundaries zero gm)
qed


theorem C5_grid_artifact_score_witness:
  "wf_mat 9 9 stepImage
   \<and> blockBoundaries 9 9 8 0 0 = [RightEdge 0 0, BottomEdge 0 0]
   \<and> boundaryDiff stepImage (RightEdge 0 0) = 2
   \<and> boundaryDiff stepImage (BottomEdge 0 0) = 31 / 8
   \<and> gridScore stepImage 9 9 8 0 0 = Inr (47 / 16)
   \<and> blockBoundaries 9 9 8 0 1 = []
   \<and> gridScore stepImage 9 9 8 0 1 = Inr 0"
proof -
  have wf: "wf_mat 9 9 stepImage"
    by code_simp
  have b00: "blockBoundaries 9 9 8 0 0 = [RightEdge 0 0, BottomEdge 0 0]"
    by code_simp
  have b01: "blockBoundaries 9 9 8 0 1 = []"
    by code_simp
  have d1: "boundaryDiff stepImage (RightEdge 0 0) = 2"
    by code_simp
  have d2: "boundaryDiff stepImage (BottomEdge 0 0) = 31 / 8"
    by code_simp
  have s00: "gridScore stepImage 9 9 8 0 0 = Inr (47 / 16)"
    using C5_grid_artifact_score[OF wf, THEN conjunct1, of 8 0 0]
    unfolding b00 by (simp add: d1 d2 average_def del: boundaryDiff.simps)
  have s01: "gridScore stepImage 9 9 8 0 1 = Inr 0"
    using C5_grid_artifact_score[OF wf, THEN conjunct1, of 8 0 1]
    unfolding b01 by simp
  show ?thesis
    by (intro conjI wf b00 d1 d2 s00 b01 s01)
qed

lemma fusionMap_nth:
  "by < byC \<Longrightarrow> bx < bxC \<Longrightarrow> fusionMap vm gm pm em byC bxC ! by ! bx = fusion vm gm pm em by bx"
  by (simp add: fusionMap_def)

lemma hasShape_fusionMap: "hasShape byC bxC (fusionMap vm gm pm em byC bxC)"
  unfolding fusionMap_def by (rule hasShape_grid)

text \<open>
  C6. For each block, the ELA score is the sum, over the part of the block inside the
  image, of the absolute difference of the first (red) byte of the pixel between the
  original and the recompressed buffer, divided by \<open>blockSize * blockSize\<close> whatever the
  size of that part. The ELA map is normalised and enters the fused score as it is,
  without the inversion \<open>1 - v\<close> applied to the other three maps.
\<close>

theorem C6_ela_score_nominal_area:
  assumes "hasShape (byCount (p_h p) (p_blockSize p)) (bxCount (p_w p) (p_blockSize p)) (p_varMap p)"
    and "hasShape (byCount (p_h p) (p_blockSize p)) (bxCount (p_w p) (p_blockSize p)) (p_gridMap p)"
    and "hasShape (byCount (p_h p) (p_blockSize p)) (bxCount (p_w p) (p_blockSize p)) (p_prnuMap p)"
    and "length (p_origData p) = 4 * p_w p * p_h p" "length newData = 4 * p_w p * p_h p"
    and "by < byCount (p_h p) (p_blockSize p)" "bx < bxCount (p_w p) (p_blockSize p)"
  shows "elaScore (p_origData p) newData (p_w p) (p_h p) (p_blockSize p) by bx
           = Inr ((\<Sum>py\<leftarrow>[by * p_blockSize p..<min (by * p_blockSize p + p_blockSize p) (p_h p)].
                    \<Sum>px\<leftarrow>[bx * p_blockSize p..<min (bx * p_blockSize p + p_blockSize p) (p_w p)].
                      \<bar>real (p_origData p ! ((py * p_w p + px) * 4))
                        - real (newData ! ((py * p_w p + px) * 4))\<bar>)
                  / real (p_blockSize p * p_blockSize p))
    \<and> (\<exists>em. elaMap (p_origData p) newData (p_w p) (p_h p) (p_blockSize p) = Inr em
          \<and> elaScore (p_origData p) newData (p_w p) (p_h p) (p_blockSize p) by bx = Inr (em ! by ! bx)
          \<and> (\<exists>out. onload2 p newData = Inr out
                \<and> o_composite out ! by ! bx
                    = (invert (normalizeMap (p_varMap p)) ! by ! bx
                       + invert (normalizeMap (p_gridMap p)) ! by ! bx
                       + invert (normalizeMap (p_prnuMap p)) ! by ! bx
                       + normalizeMap em ! by ! bx) / 4
                \<and> normalizeMap em ! by ! bx = minMax (flat em) (em ! by ! bx)))"
proof -
  let ?byC = "byCount (p_h p) (p_blockSize p)" and ?bxC = "bxCount (p_w p) (p_blockSize p)"
  let ?em = "elaGrid (p_origData p) newData (p_w p) (p_h p) (p_blockSize p)"
  have score: "elaScore (p_origData p) newData (p_w p) (p_h p) (p_blockSize p) by bx
           = Inr (clippedRedSum (p_origData p) newData (p_w p) (p_h p) (p_blockSize p) by bx
                  / real (p_blockSize p * p_blockSize p))"
    by (rule elaScore_wf[OF assms(4,5)])
  have first: "elaScore (p_origData p) newData (p_w p) (p_h p) (p_blockSize p) by bx
           = Inr ((\<Sum>py\<leftarrow>[by * p_blockSize p..<min (by * p_blockSize p + p_blockSize p) (p_h p)].
                    \<Sum>px\<leftarrow>[bx * p_blockSize p..<min (bx * p_blockSize p + p_blockSize p) (p_w p)].
                      \<bar>real (p_origData p ! ((py * p_w p + px) * 4))
                        - real (newData ! ((py * p_w p + px) * 4))\<bar>)
                  / real (p_blockSize p * p_blockSize p))"
    unfolding score clippedRedSum_def redDiff_def ..
  have em: "elaMap (p_origData p) newData (p_w p) (p_h p) (p_blockSize p) = Inr ?em"
    by (rule elaMap_grid[OF assms(4,5)])
  have entry: "elaScore (p_origData p) newData (p_w p) (p_h p) (p_blockSize p) by bx = Inr (?em ! by ! bx)"
    using assms(6,7) by (simp add: score elaGrid_def)
  have shp: "hasShape ?byC ?bxC ?em" by (rule hasShape_elaGrid)
  have in_range: "by < length m" "bx < length (m ! by)"
                 "by < length (normalizeMap m)" "bx < length (normalizeMap m ! by)"
    if "hasShape ?byC ?bxC m" for m
    using that assms(6,7) hasShape_normalize[OF that]
    by (simp_all add: hasShape_def list_all_length)
  have fus: "fusion (p_varMap p) (p_gridMap p) (p_prnuMap p) ?em by bx
        = (invert (normalizeMap (p_varMap p)) ! by ! bx
           + invert (normalizeMap (p_gridMap p)) ! by ! bx
           + invert (normalizeMap (p_prnuMap p)) ! by ! bx
           + normalizeMap ?em ! by ! bx) / 4"
    using in_range[OF assms(1)] in_range[OF assms(2)] in_range[OF assms(3)] in_range[OF shp]
    by (simp add: invert_nth normalize_nth fusion_def field_simps)
  have nrm: "normalizeMap ?em ! by ! bx = minMax (flat ?em) (?em ! by ! bx)"
    using in_range[OF shp] by (simp add: normalize_nth)
  have run: "\<exists>out. onload2 p newData = Inr out
                \<and> o_composite out ! by ! bx
                    = (invert (normalizeMap (p_varMap p)) ! by ! bx
                       + invert (normalizeMap (p_gridMap p)) ! by ! bx
                       + invert (normalizeMap (p_prnuMap p)) ! by ! bx
                       + normalizeMap ?em ! by ! bx) / 4
                \<and> normalizeMap ?em ! by ! bx = minMax (flat ?em) (?em ! by ! bx)"
    using assms(6,7) fus nrm
    by (simp add: onload2_wf[OF assms(1-5)] Let_def fusionMap_nth)
  show ?thesis
    using first em entry run by blast
qed

theorem C6_ela_score_nominal_area_witness:
  "hasShape (byCount (p_h examplePending) (p_blockSize examplePending))
            (bxCount (p_w examplePending) (p_blockSize examplePending)) (p_varMap examplePending)
   \<and> hasShape (byCount (p_h examplePending) (p_blockSize examplePending))
            (bxCount (p_w examplePending) (p_blockSize examplePending)) (p_gridMap examplePending)
   \<and> hasShape (byCount (p_h examplePending) (p_blockSize examplePending))
            (bxCount (p_w examplePending) (p_blockSize examplePending)) (p_prnuMap examplePending)
   \<and> length (p_origData examplePending) = 4 * p_w examplePending * p_h examplePending
   \<and> length exampleNewData = 4 * p_w examplePending * p_h examplePending
   \<and> 0 < byCount (p_h examplePending) (p_blockSize examplePending)
   \<and> 1 < bxCount (p_w examplePending) (p_blockSize examplePending)
   \<and> clippedWidth (p_w examplePending) (p_blockSize examplePending) 1
       * clippedHeight (p_h examplePending) (p_blockSize examplePending) 0 = 1
   \<and> elaScore (p_origData examplePending) exampleNewData (p_w examplePending) (p_h examplePending)
         (p_blockSize examplePending) 0 1 = Inr (1 / 4)"
proof -
  have h1: "hasShape (byCount (p_h examplePending) (p_blockSize examplePending))
            (bxCount (p_w examplePending) (p_blockSize examplePending)) (p_varMap examplePending)"
    by code_simp
  have h2: "hasShape (byCount (p_h examplePending) (p_blockSize examplePending))
            (bxCount (p_w examplePending) (p_blockSize examplePending)) (p_gridMap examplePending)"
    by code_simp
  have h3: "hasShape (byCount (p_h examplePending) (p_blockSize examplePending))
            (bxCount (p_w examplePending) (p_blockSize examplePending)) (p_prnuMap examplePending)"
    by code_simp
  have h4: "length (p_origData examplePending) = 4 * p_w examplePending * p_h examplePending"
    by code_simp
  have h5: "length exampleNewData = 4 * p_w examplePending * p_h examplePending"
    by code_simp
  have h6: "0 < byCount (p_h examplePending) (p_blockSize examplePending)"
    by code_simp
  have h7: "1 < bxCount (p_w examplePending) (p_blockSize examplePending)"
    by code_simp
  have area: "clippedWidth (p_w examplePending) (p_blockSize examplePending) 1
       * clippedHeight (p_h examplePending) (p_blockSize examplePending) 0 = 1"
    by code_simp
  have val: "(\<Sum>py\<leftarrow>[0 * p_blockSize examplePending..<min (0 * p_blockSize examplePending + p_blockSize examplePending) (p_h examplePending)].
                    \<Sum>px\<leftarrow>[1 * p_blockSize examplePending..<min (1 * p_blockSize examplePending + p_blockSize examplePending) (p_w examplePending)].
                      \<bar>real (p_origData examplePending ! ((py * p_w examplePending + px) * 4))
                        - real (exampleNewData ! ((py * p_w examplePending + px) * 4))\<bar>)
                  / real (p_blockSize examplePending * p_blockSize examplePending) = 1 / 4"
    by code_simp
  have s: "elaScore (p_origData examplePending) exampleNewData (p_w examplePending) (p_h examplePending)
         (p_blockSize examplePending) 0 1 = Inr (1 / 4)"
    using C6_ela_score_nominal_area[OF h1 h2 h3 h4 h5 h6 h7, THEN conjunct1]
    unfolding val .
  show ?thesis
    by (intro conjI h1 h2 h3 h4 h5 h6 h7 area s)
qed

text \<open>
  C3. Each raw score map is normalised on its own as
  \<open>(v - min) / (max - min + 1e-8)\<close>, with the least and the greatest entry of that map;
  a normalised value lies in \<open>[0, 1)\<close>. The variance, grid-artifact and residual maps
  are inverted as \<open>1 - normalised\<close>, after the normalisation; the ELA map is not. The
  composite value of a block is the sum of the four resulting values divided by 4, that
  is weight 1/4 each, and lies in \<open>[0, 1]\<close>.
\<close>

theorem C3_normalise_invert_fuse:
  assumes "hasShape (byCount (p_h p) (p_blockSize p)) (bxCount (p_w p) (p_blockSize p)) (p_varMap p)"
    and "hasShape (byCount (p_h p) (p_blockSize p)) (bxCount (p_w p) (p_blockSize p)) (p_gridMap p)"
    and "hasShape (byCount (p_h p) (p_blockSize p)) (bxCount (p_w p) (p_blockSize p)) (p_prnuMap p)"
    and "length (p_origData p) = 4 * p_w p * p_h p" "length newData = 4 * p_w p * p_h p"
    and "by < byCount (p_h p) (p_blockSize p)" "bx < bxCount (p_w p) (p_blockSize p)"
  shows "(\<forall>m i j. i < length m \<longrightarrow> j < length (m ! i) \<longrightarrow>
            normalizeMap m ! i ! j
              = (m ! i ! j - Min (set (flat m))) / (Max (set (flat m)) - Min (set (flat m)) + 1 / 10 ^ 8)
            \<and> 0 \<le> normalizeMap m ! i ! j \<and> normalizeMap m ! i ! j < 1
            \<and> invert (normalizeMap m) ! i ! j = 1 - normalizeMap m ! i ! j)
    \<and> (\<exists>em out.
          elaMap (p_origData p) newData (p_w p) (p_h p) (p_blockSize p) = Inr em
          \<and> onload2 p newData = Inr out
          \<and> hasShape (byCount (p_h p) (p_blockSize p)) (bxCount (p_w p) (p_blockSize p))
                (o_composite out)
          \<and> o_composite out ! by ! bx
               = 1 / 4 * (1 - normalizeMap (p_varMap p) ! by ! bx)
                 + 1 / 4 * (1 - normalizeMap (p_gridMap p) ! by ! bx)
                 + 1 / 4 * (1 - normalizeMap (p_prnuMap p) ! by ! bx)
                 + 1 / 4 * normalizeMap em ! by ! bx
          \<and> 0 \<le> o_composite out ! by ! bx \<and> o_composite out ! by ! bx \<le> 1)"
proof -
  let ?byC = "byCount (p_h p) (p_blockSize p)" and ?bxC = "bxCount (p_w p) (p_blockSize p)"
  let ?em = "elaGrid (p_origData p) newData (p_w p) (p_h p) (p_blockSize p)"
  have norm: "\<forall>m i j. i < length m \<longrightarrow> j < length (m ! i) \<longrightarrow>
            normalizeMap m ! i ! j
              = (m ! i ! j - Min (set (flat m))) / (Max (set (flat m)) - Min (set (flat m)) + 1 / 10 ^ 8)
            \<and> 0 \<le> normalizeMap m ! i ! j \<and> normalizeMap m ! i ! j < 1
            \<and> invert (normalizeMap m) ! i ! j = 1 - normalizeMap m ! i ! j"
  proof (intro allI impI)
    fix m :: scoreMap and i j
    assume i: "i < length m" and j: "j < length (m ! i)"
    have n: "normalizeMap m ! i ! j = minMax (flat m) (m ! i ! j)"
      by (rule normalize_nth[OF i j])
    have i': "i < length (normalizeMap m)" and j': "j < length (normalizeMap m ! i)"
      using i j by (simp_all add: normalize_eq)
    show "normalizeMap m ! i ! j
              = (m ! i ! j - Min (set (flat m))) / (Max (set (flat m)) - Min (set (flat m)) + 1 / 10 ^ 8)
            \<and> 0 \<le> normalizeMap m ! i ! j \<and> normalizeMap m ! i ! j < 1
            \<and> invert (normalizeMap m) ! i ! j = 1 - normalizeMap m ! i ! j"
      using minMax_range[OF flat_mem[OF i j]] invert_nth[OF i' j']
      by (simp add: n minMax_def)
  qed
  have em: "elaMap (p_origData p) newData (p_w p) (p_h p) (p_blockSize p) = Inr ?em"
    by (rule elaMap_grid[OF assms(4,5)])
  have shp: "hasShape ?byC ?bxC ?em" by (rule hasShape_elaGrid)
  have in_range: "by < length m" "bx < length (m ! by)"
    if "hasShape ?byC ?bxC m" for m :: scoreMap
    using that assms(6,7) by (simp_all add: hasShape_def list_all_length)
  have fus: "fusion (p_varMap p) (p_gridMap p) (p_prnuMap p) ?em by bx
        = 1 / 4 * (1 - normalizeMap (p_varMap p) ! by ! bx)
          + 1 / 4 * (1 - normalizeMap (p_gridMap p) ! by ! bx)
          + 1 / 4 * (1 - normalizeMap (p_prnuMap p) ! by ! bx)
          + 1 / 4 * normalizeMap ?em ! by ! bx"
    using in_range[OF assms(1)] in_range[OF assms(2)] in_range[OF assms(3)] in_range[OF shp]
    by (simp add: normalize_nth fusion_def)
  let ?comp = "fusionMap (p_varMap p) (p_gridMap p) (p_prnuMap p) ?em ?byC ?bxC"
  let ?out = "\<lparr>o_composite = ?comp, o_thr = thr ?comp (p_thresholdPercent p),
               o_mask = highlightMask ?comp (thr ?comp (p_thresholdPercent p)),
               o_rects = fillRects (p_blockSize p) ?comp (thr ?comp (p_thresholdPercent p)),
               o_console = p_console p\<rparr>"
  have run: "onload2 p newData = Inr ?out"
    by (simp add: onload2_wf[OF assms(1-5)] Let_def)
  have comp: "o_composite ?out ! by ! bx
               = 1 / 4 * (1 - normalizeMap (p_varMap p) ! by ! bx)
                 + 1 / 4 * (1 - normalizeMap (p_gridMap p) ! by ! bx)
                 + 1 / 4 * (1 - normalizeMap (p_prnuMap p) ! by ! bx)
                 + 1 / 4 * normalizeMap ?em ! by ! bx"
    using assms(6,7) by (simp add: fusionMap_nth fus)
  have rng: "0 \<le> o_composite ?out ! by ! bx" "o_composite ?out ! by ! bx \<le> 1"
    using fusion_range[OF assms(1,2,3) shp assms(6,7)] assms(6,7)
    by (simp_all add: fusionMap_nth)
  have shp_out: "hasShape ?byC ?bxC (o_composite ?out)"
    by (simp add: hasShape_fusionMap)
  have second: "\<exists>em out.
          elaMap (p_origData p) newData (p_w p) (p_h p) (p_blockSize p) = Inr em
          \<and> onload2 p newData = Inr out
          \<and> hasShape ?byC ?bxC (o_composite out)
          \<and> o_composite out ! by ! bx
               = 1 / 4 * (1 - normalizeMap (p_varMap p) ! by ! bx)
                 + 1 / 4 * (1 - normalizeMap (p_gridMap p) ! by ! bx)
                 + 1 / 4 * (1 - normalizeMap (p_prnuMap p) ! by ! bx)
                 + 1 / 4 * normalizeMap em ! by ! bx
          \<and> 0 \<le> o_composite out ! by ! bx \<and> o_composite out ! by ! bx \<le> 1"
    by (intro exI[of _ ?em] exI[of _ ?out] conjI em run shp_out comp rng)
  show ?thesis
    by (intro conjI norm second)
qed

theorem C3_normalise_invert_fuse_witness:
  "hasShape (byCount (p_h examplePending) (p_blockSize examplePending))
            (bxCount (p_w examplePending) (p_blockSize examplePending)) (p_varMap examplePending)
   \<and> hasShape (byCount (p_h examplePending) (p_blockSize examplePending))
            (bxCount (p_w examplePending) (p_blockSize examplePending)) (p_gridMap examplePending)
   \<and> hasShape (byCount (p_h examplePending) (p_blockSize examplePending))
            (bxCount (p_w examplePending) (p_blockSize examplePending)) (p_prnuMap examplePending)
   \<and> length (p_origData examplePending) = 4 * p_w examplePending * p_h examplePending
   \<and> length exampleNewData = 4 * p_w examplePending * p_h examplePending
   \<and> 0 < byCount (p_h examplePending) (p_blockSize examplePending)
   \<and> 0 < bxCount (p_w examplePending) (p_blockSize examplePending)
   \<and> normalizeMap (p_varMap examplePending) ! 0 ! 1 = 200000000 / 200000001
   \<and> invert (normalizeMap (p_varMap examplePending)) ! 0 ! 1 = 1 / 200000001
   \<and> (\<exists>out. onload2 examplePending exampleNewData = Inr out
         \<and> o_composite out ! 0 ! 0 = 200000003 / 200000004
         \<and> 0 \<le> o_composite out ! 0 ! 0 \<and> o_composite out ! 0 ! 0 \<le> 1)"
proof -
  have h1: "hasShape (byCount (p_h examplePending) (p_blockSize examplePending))
            (bxCount (p_w examplePending) (p_blockSize examplePending)) (p_varMap examplePending)"
    by code_simp
  have h2: "hasShape (byCount (p_h examplePending) (p_blockSize examplePending))
            (bxCount (p_w examplePending) (p_blockSize examplePending)) (p_gridMap examplePending)"
    by code_simp
  have h3: "hasShape (byCount (p_h examplePending) (p_blockSize examplePending))
            (bxCount (p_w examplePending) (p_blockSize examplePending)) (p_prnuMap examplePending)"
    by code_simp
  have h4: "length (p_origData examplePending) = 4 * p_w examplePending * p_h examplePending"
    by code_simp
  have h5: "length exampleNewData = 4 * p_w examplePending * p_h examplePending"
    by code_simp
  have h6: "0 < byCount (p_h examplePending) (p_blockSize examplePending)"
    by code_simp
  have h7: "0 < bxCount (p_w examplePending) (p_blockSize examplePending)"
    by code_simp
  have n1: "normalizeMap (p_varMap examplePending) ! 0 ! 1 = 200000000 / 200000001"
    by code_simp
  have n2: "invert (normalizeMap (p_varMap examplePending)) ! 0 ! 1 = 1 / 200000001"
    by code_simp
  have e: "elaMap (p_origData examplePending) exampleNewData (p_w examplePending)
              (p_h examplePending) (p_blockSize examplePending) = Inr [[3 / 4, 1 / 4]]"
    by code_simp
  have v: "normalizeMap (p_varMap examplePending) ! 0 ! 0 = 0"
    by code_simp
  have g: "normalizeMap (p_gridMap examplePending) ! 0 ! 0 = 0"
    by code_simp
  have r: "normalizeMap (p_prnuMap examplePending) ! 0 ! 0 = 0"
    by code_simp
  have l: "normalizeMap [[3 / 4, 1 / 4]] ! 0 ! 0 = 50000000 / 50000001"
    by code_simp
  from C3_normalise_invert_fuse[OF h1 h2 h3 h4 h5 h6 h7, THEN conjunct2]
  obtain em out where
    em: "elaMap (p_origData examplePending) exampleNewData (p_w examplePending)
              (p_h examplePending) (p_blockSize examplePending) = Inr em"
    and o: "onload2 examplePending exampleNewData = Inr out"
    and cmp: "o_composite out ! 0 ! 0
               = 1 / 4 * (1 - normalizeMap (p_varMap examplePending) ! 0 ! 0)
                 + 1 / 4 * (1 - normalizeMap (p_gridMap examplePending) ! 0 ! 0)
                 + 1 / 4 * (1 - normalizeMap (p_prnuMap examplePending) ! 0 ! 0)
                 + 1 / 4 * normalizeMap em ! 0 ! 0"
    and bounds: "0 \<le> o_composite out ! 0 ! 0" "o_composite out ! 0 ! 0 \<le> 1"
    by blast
  have "em = [[3 / 4, 1 / 4]]"
    using em e by simp
  then have "o_composite out ! 0 ! 0 = 200000003 / 200000004"
    unfolding cmp by (simp add: v g r l)
  with o bounds have run: "\<exists>out. onload2 examplePending exampleNewData = Inr out
         \<and> o_composite out ! 0 ! 0 = 200000003 / 200000004
         \<and> 0 \<le> o_composite out ! 0 ! 0 \<and> o_composite out ! 0 ! 0 \<le> 1"
    by blast
  show ?thesis
    by (intro conjI h1 h2 h3 h4 h5 h6 h7 n1 n2 run)
qed

lemma pixel_in_grid:
  assumes "0 < blockSize" "p < n"
  shows "p div blockSize < nat \<lceil>real n / real blockSize\<rceil>"
proof -
  have "p div blockSize * blockSize \<le> p" by simp
  then have "p div blockSize * blockSize < n" using assms(2) by linarith
  then show ?thesis using count_less_iff[OF assms(1)] by blast
qed

lemma count_covers:
  assumes "0 < blockSize"
  shows "n \<le> nat \<lceil>real n / real blockSize\<rceil> * blockSize"
    and "nat \<lceil>real n / real blockSize\<rceil> * blockSize < n + blockSize"
proof -
  let ?c = "nat \<lceil>real n / real blockSize\<rceil>"
  have "\<not> ?c * blockSize < n"
    using count_less_iff[OF assms, of ?c n] by simp
  then show "n \<le> ?c * blockSize" by simp
  show "?c * blockSize < n + blockSize"
  proof (cases "?c")
    case 0
    then show ?thesis using assms by simp
  next
    case (Suc k)
    then have "k < ?c" by simp
    then have "k * blockSize < n" using count_less_iff[OF assms] by blast
    then show ?thesis using Suc by simp
  qed
qed

lemma block_region:
  assumes "0 < blockSize" "by < byCount h blockSize" "bx < bxCount w blockSize"
  shows "blockRect w h blockSize by bx
           = Rect (int (bx * blockSize)) (int (by * blockSize))
               (int (clippedWidth w blockSize bx)) (int (clippedHeight h blockSize by))"
    and "0 < clippedWidth w blockSize bx" "clippedWidth w blockSize bx \<le> blockSize"
    and "bx * blockSize + clippedWidth w blockSize bx \<le> w"
    and "0 < clippedHeight h blockSize by" "clippedHeight h blockSize by \<le> blockSize"
    and "by * blockSize + clippedHeight h blockSize by \<le> h"
proof -
  have y: "by * blockSize < h" and x: "bx * blockSize < w"
    using assms by (simp_all add: byCount_def bxCount_def count_less_iff)
  show "blockRect w h blockSize by bx
           = Rect (int (bx * blockSize)) (int (by * blockSize))
               (int (clippedWidth w blockSize bx)) (int (clippedHeight h blockSize by))"
    by (rule blockRect_eq[OF y x])
  show "0 < clippedWidth w blockSize bx" "bx * blockSize + clippedWidth w blockSize bx \<le> w"
    using clipped_bounds[OF assms(1) x] by (simp_all add: clippedWidth_def)
  show "0 < clippedHeight h blockSize by" "by * blockSize + clippedHeight h blockSize by \<le> h"
    using clipped_bounds[OF assms(1) y] by (simp_all add: clippedHeight_def)
  show "clippedWidth w blockSize bx \<le> blockSize" "clippedHeight h blockSize by \<le> blockSize"
    by (simp_all add: clippedWidth_def clippedHeight_def)
qed

text \<open>
  C2. For every image width \<open>w\<close>, height \<open>h\<close> and positive block size, the grid has
  \<open>ceil (h / blockSize)\<close> rows and \<open>ceil (w / blockSize)\<close> columns of blocks. The rows
  cover the image and the last one is not empty, so every pixel lies in a block and a
  trailing partial row or column is a smaller block. The region of every block is
  clipped to the image, and each detector runs over every block without reading outside
  the image: each of the four maps is produced, one entry per block. The variance and
  the residual detector read exactly the clipped region of the block and score its
  samples; the grid detector scores the sub-cell boundaries of the block that lie inside
  the image; the ELA detector sums over the pixels of the block inside the image, every
  read falling inside the two buffers. For a 100 by 50 image and block size 32 there are
  2 rows and 4 columns.
\<close>

theorem C2_block_grid_ceiling:
  assumes "0 < blockSize"
  shows "byCount h blockSize = nat \<lceil>real h / real blockSize\<rceil>
    \<and> bxCount w blockSize = nat \<lceil>real w / real blockSize\<rceil>
    \<and> byCount h blockSize = (h + blockSize - 1) div blockSize
    \<and> bxCount w blockSize = (w + blockSize - 1) div blockSize
    \<and> h \<le> byCount h blockSize * blockSize \<and> byCount h blockSize * blockSize < h + blockSize
    \<and> w \<le> bxCount w blockSize * blockSize \<and> bxCount w blockSize * blockSize < w + blockSize
    \<and> (\<forall>py < h. py div blockSize < byCount h blockSize)
    \<and> (\<forall>px < w. px div blockSize < bxCount w blockSize)
    \<and> (\<forall>by < byCount h blockSize. \<forall>bx < bxCount w blockSize.
          blockRect w h blockSize by bx
            = Rect (int (bx * blockSize)) (int (by * blockSize))
                (int (clippedWidth w blockSize bx)) (int (clippedHeight h blockSize by))
          \<and> 0 < clippedWidth w blockSize bx \<and> clippedWidth w blockSize bx \<le> blockSize
          \<and> bx * blockSize + clippedWidth w blockSize bx \<le> w
          \<and> 0 < clippedHeight h blockSize by \<and> clippedHeight h blockSize by \<le> blockSize
          \<and> by * blockSize + clippedHeight h blockSize by \<le> h)
    \<and> (\<forall>m. wf_mat w h m \<longrightarrow>
          (\<exists>vm. varMap m w h blockSize = Inr vm
                \<and> hasShape (byCount h blockSize) (bxCount w blockSize) vm)
          \<and> (\<exists>gm. gridMap m w h blockSize = Inr gm
                \<and> hasShape (byCount h blockSize) (bxCount w blockSize) gm)
          \<and> (\<exists>pm. prnuMap m w h blockSize = Inr pm
                \<and> hasShape (byCount h blockSize) (bxCount w blockSize) pm))
    \<and> (\<forall>origData newData. length origData = 4 * w * h \<longrightarrow> length newData = 4 * w * h \<longrightarrow>
          (\<exists>em. elaMap origData newData w h blockSize = Inr em
                \<and> hasShape (byCount h blockSize) (bxCount w blockSize) em))
    \<and> (\<forall>m. wf_mat w h m \<longrightarrow>
          (\<forall>by < byCount h blockSize. \<forall>bx < bxCount w blockSize.
             roi m (blockRect w h blockSize by bx)
               = Inr (samples m (bx * blockSize) (by * blockSize)
                        (clippedWidth w blockSize bx) (clippedHeight h blockSize by))
             \<and> length (blockSamples m w h blockSize by bx)
                 = clippedHeight h blockSize by * clippedWidth w blockSize bx
             \<and> varScore m w h blockSize by bx
                 = Inr (meanSqMinusSqMean (blockSamples m w h blockSize by bx))
             \<and> prnuScore m w h blockSize by bx
                 = Inr (meanSqMinusSqMean (blockSamples m w h blockSize by bx))
             \<and> gridScore m w h blockSize by bx
                 = Inr (if blockBoundaries w h blockSize by bx = [] then 0
                        else average (map (boundaryDiff m) (blockBoundaries w h blockSize by bx)))
             \<and> (\<forall>b \<in> set (blockBoundaries w h blockSize by bx). boundaryInside w h b))
          \<and> varMap m w h blockSize
              = Inr (map (\<lambda>by. map (\<lambda>bx. meanSqMinusSqMean (blockSamples m w h blockSize by bx))
                            [0..<bxCount w blockSize]) [0..<byCount h blockSize])
          \<and> prnuMap m w h blockSize
              = Inr (map (\<lambda>by. map (\<lambda>bx. meanSqMinusSqMean (blockSamples m w h blockSize by bx))
                            [0..<bxCount w blockSize]) [0..<byCount h blockSize])
          \<and> gridMap m w h blockSize
              = Inr (map (\<lambda>by. map (\<lambda>bx. if blockBoundaries w h blockSize by bx = [] then 0
                        else average (map (boundaryDiff m) (blockBoundaries w h blockSize by bx)))
                            [0..<bxCount w blockSize]) [0..<byCount h blockSize]))
    \<and> (\<forall>origData newData. length origData = 4 * w * h \<longrightarrow> length newData = 4 * w * h \<longrightarrow>
          (\<forall>by bx. elaScore origData newData w h blockSize by bx
             = Inr (clippedRedSum origData newData w h blockSize by bx
                      / real (blockSize * blockSize)))
          \<and> (\<forall>py < h. \<forall>px < w. (py * w + px) * 4 < length origData
                                  \<and> (py * w + px) * 4 < length newData)
          \<and> elaMap origData newData w h blockSize
              = Inr (map (\<lambda>by. map (\<lambda>bx. clippedRedSum origData newData w h blockSize by bx
                                           / real (blockSize * blockSize))
                            [0..<bxCount w blockSize]) [0..<byCount h blockSize]))
    \<and> byCount 50 32 = 2 \<and> bxCount 100 32 = 4"
proof -
  have c1: "byCount h blockSize = nat \<lceil>real h / real blockSize\<rceil>"
    and c2: "bxCount w blockSize = nat \<lceil>real w / real blockSize\<rceil>"
    by (simp_all add: byCount_def bxCount_def)
  have d1: "byCount h blockSize = (h + blockSize - 1) div blockSize"
    and d2: "bxCount w blockSize = (w + blockSize - 1) div blockSize"
    by (simp_all add: byCount_def bxCount_def ceil_div_nat[OF assms])
  have cov: "h \<le> byCount h blockSize * blockSize" "byCount h blockSize * blockSize < h + blockSize"
    "w \<le> bxCount w blockSize * blockSize" "bxCount w blockSize * blockSize < w + blockSize"
    unfolding byCount_def bxCount_def by (rule count_covers[OF assms])+
  have py: "\<forall>py < h. py div blockSize < byCount h blockSize"
    and px: "\<forall>px < w. px div blockSize < bxCount w blockSize"
    unfolding byCount_def bxCount_def using pixel_in_grid[OF assms] by blast+
  have reg: "\<forall>by < byCount h blockSize. \<forall>bx < bxCount w blockSize.
          blockRect w h blockSize by bx
            = Rect (int (bx * blockSize)) (int (by * blockSize))
                (int (clippedWidth w blockSize bx)) (int (clippedHeight h blockSize by))
          \<and> 0 < clippedWidth w blockSize bx \<and> clippedWidth w blockSize bx \<le> blockSize
          \<and> bx * blockSize + clippedWidth w blockSize bx \<le> w
          \<and> 0 < clippedHeight h blockSize by \<and> clippedHeight h blockSize by \<le> blockSize
          \<and> by * blockSize + clippedHeight h blockSize by \<le> h"
  proof (intro allI impI)
    fix "by" bx
    assume a: "by < byCount h blockSize" and b: "bx < bxCount w blockSize"
    show "blockRect w h blockSize by bx
            = Rect (int (bx * blockSize)) (int (by * blockSize))
                (int (clippedWidth w blockSize bx)) (int (clippedHeight h blockSize by))
          \<and> 0 < clippedWidth w blockSize bx \<and> clippedWidth w blockSize bx \<le> blockSize
          \<and> bx * blockSize + clippedWidth w blockSize bx \<le> w
          \<and> 0 < clippedHeight h blockSize by \<and> clippedHeight h blockSize by \<le> blockSize
          \<and> by * blockSize + clippedHeight h blockSize by \<le> h"
      by (intro conjI block_region[OF assms a b])
  qed
  have det: "\<forall>m. wf_mat w h m \<longrightarrow>
          (\<exists>vm. varMap m w h blockSize = Inr vm
                \<and> hasShape (byCount h blockSize) (bxCount w blockSize) vm)
          \<and> (\<exists>gm. gridMap m w h blockSize = Inr gm
                \<and> hasShape (byCount h blockSize) (bxCount w blockSize) gm)
          \<and> (\<exists>pm. prnuMap m w h blockSize = Inr pm
                \<and> hasShape (byCount h blockSize) (bxCount w blockSize) pm)"
    by (simp add: varMap_wf[OF _ assms] gridMap_wf prnuMap_wf[OF _ assms] hasShape_grid)
  have ela: "\<forall>origData newData. length origData = 4 * w * h \<longrightarrow> length newData = 4 * w * h \<longrightarrow>
          (\<exists>em. elaMap origData newData w h blockSize = Inr em
                \<and> hasShape (byCount h blockSize) (bxCount w blockSize) em)"
    by (simp add: elaMap_grid hasShape_elaGrid)
  have reads: "\<forall>m. wf_mat w h m \<longrightarrow>
          (\<forall>by < byCount h blockSize. \<forall>bx < bxCount w blockSize.
             roi m (blockRect w h blockSize by bx)
               = Inr (samples m (bx * blockSize) (by * blockSize)
                        (clippedWidth w blockSize bx) (clippedHeight h blockSize by))
             \<and> length (blockSamples m w h blockSize by bx)
                 = clippedHeight h blockSize by * clippedWidth w blockSize bx
             \<and> varScore m w h blockSize by bx
                 = Inr (meanSqMinusSqMean (blockSamples m w h blockSize by bx))
             \<and> prnuScore m w h blockSize by bx
                 = Inr (meanSqMinusSqMean (blockSamples m w h blockSize by bx))
             \<and> gridScore m w h blockSize by bx
                 = Inr (if blockBoundaries w h blockSize by bx = [] then 0
                        else average (map (boundaryDiff m) (blockBoundaries w h blockSize by bx)))
             \<and> (\<forall>b \<in> set (blockBoundaries w h blockSize by bx). boundaryInside w h b))
          \<and> varMap m w h blockSize
              = Inr (map (\<lambda>by. map (\<lambda>bx. meanSqMinusSqMean (blockSamples m w h blockSize by bx))
                            [0..<bxCount w blockSize]) [0..<byCount h blockSize])
          \<and> prnuMap m w h blockSize
              = Inr (map (\<lambda>by. map (\<lambda>bx. meanSqMinusSqMean (blockSamples m w h blockSize by bx))
                            [0..<bxCount w blockSize]) [0..<byCount h blockSize])
          \<and> gridMap m w h blockSize
              = Inr (map (\<lambda>by. map (\<lambda>bx. if blockBoundaries w h blockSize by bx = [] then 0
                        else average (map (boundaryDiff m) (blockBoundaries w h blockSize by bx)))
                            [0..<bxCount w blockSize]) [0..<byCount h blockSize])"
  proof (intro allI impI conjI)
    fix m "by" bx
    assume wf: "wf_mat w h m"
      and a: "by < byCount h blockSize" and b: "bx < bxCount w blockSize"
    note br = block_region[OF assms a b]
    have "byCount 0 blockSize = 0" by (simp add: byCount_def)
    then have h0: "0 < h" using a by (cases "h = 0") simp_all
    show "roi m (blockRect w h blockSize by bx)
               = Inr (samples m (bx * blockSize) (by * blockSize)
                        (clippedWidth w blockSize bx) (clippedHeight h blockSize by))"
      unfolding br(1) by (rule roi_wf[OF wf br(4) br(7) h0])
    show "length (blockSamples m w h blockSize by bx)
                 = clippedHeight h blockSize by * clippedWidth w blockSize bx"
      unfolding blockSamples_def samples_def by (rule concat_grid_length)
    show "varScore m w h blockSize by bx
                 = Inr (meanSqMinusSqMean (blockSamples m w h blockSize by bx))"
      by (rule varScore_wf[OF wf assms a b])
    show "prnuScore m w h blockSize by bx
                 = Inr (meanSqMinusSqMean (blockSamples m w h blockSize by bx))"
      by (rule prnuScore_wf[OF wf assms a b])
    show "gridScore m w h blockSize by bx
                 = Inr (if blockBoundaries w h blockSize by bx = [] then 0
                        else average (map (boundaryDiff m) (blockBoundaries w h blockSize by bx)))"
      by (rule gridScore_wf[OF wf])
    show "\<forall>b \<in> set (blockBoundaries w h blockSize by bx). boundaryInside w h b"
      by (simp add: blockBoundaries_def)
  next
    fix m
    assume wf: "wf_mat w h m"
    show "varMap m w h blockSize
              = Inr (map (\<lambda>by. map (\<lambda>bx. meanSqMinusSqMean (blockSamples m w h blockSize by bx))
                            [0..<bxCount w blockSize]) [0..<byCount h blockSize])"
      by (rule varMap_wf[OF wf assms])
    show "prnuMap m w h blockSize
              = Inr (map (\<lambda>by. map (\<lambda>bx. meanSqMinusSqMean (blockSamples m w h blockSize by bx))
                            [0..<bxCount w blockSize]) [0..<byCount h blockSize])"
      by (rule prnuMap_wf[OF wf assms])
    show "gridMap m w h blockSize
              = Inr (map (\<lambda>by. map (\<lambda>bx. if blockBoundaries w h blockSize by bx = [] then 0
                        else average (map (boundaryDiff m) (blockBoundaries w h blockSize by bx)))
                            [0..<bxCount w blockSize]) [0..<byCount h blockSize])"
      by (rule gridMap_wf[OF wf])
  qed
  have er: "\<forall>origData newData. length origData = 4 * w * h \<longrightarrow> length newData = 4 * w * h \<longrightarrow>
          (\<forall>by bx. elaScore origData newData w h blockSize by bx
             = Inr (clippedRedSum origData newData w h blockSize by bx
                      / real (blockSize * blockSize)))
          \<and> (\<forall>py < h. \<forall>px < w. (py * w + px) * 4 < length origData
                                  \<and> (py * w + px) * 4 < length newData)
          \<and> elaMap origData newData w h blockSize
              = Inr (map (\<lambda>by. map (\<lambda>bx. clippedRedSum origData newData w h blockSize by bx
                                           / real (blockSize * blockSize))
                            [0..<bxCount w blockSize]) [0..<byCount h blockSize])"
  proof (intro allI impI conjI)
    fix origData newData :: "nat list" and "by" bx
    assume l: "length origData = 4 * w * h" "length newData = 4 * w * h"
    show "elaScore origData newData w h blockSize by bx
             = Inr (clippedRedSum origData newData w h blockSize by bx
                      / real (blockSize * blockSize))"
      by (rule elaScore_wf[OF l])
  next
    fix origData newData :: "nat list" and py px
    assume l: "length origData = 4 * w * h" "length newData = 4 * w * h"
      and p: "py < h" "px < w"
    show "(py * w + px) * 4 < length origData" "(py * w + px) * 4 < length newData"
      unfolding l by (rule pixel_index_bound[OF p])+
  next
    fix origData newData :: "nat list"
    assume l: "length origData = 4 * w * h" "length newData = 4 * w * h"
    show "elaMap origData newData w h blockSize
              = Inr (map (\<lambda>by. map (\<lambda>bx. clippedRedSum origData newData w h blockSize by bx
                                           / real (blockSize * blockSize))
                            [0..<bxCount w blockSize]) [0..<byCount h blockSize])"
      by (rule elaMap_wf[OF l])
  qed
  have ex: "byCount 50 32 = 2" "bxCount 100 32 = 4"
    by (simp_all add: byCount_def bxCount_def ceil_div_nat)
  show ?thesis
    by (intro conjI c1 c2 d1 d2 cov py px reg det ela reads er ex)
qed

theorem C2_block_grid_ceiling_witness:
  "(0::nat) < 32
   \<and> byCount 50 32 = 2 \<and> bxCount 100 32 = 4
   \<and> (50::nat) \<le> byCount 50 32 * 32 \<and> (100::nat) \<le> bxCount 100 32 * 32
   \<and> blockRect 100 50 32 1 3 = Rect 96 32 4 18
   \<and> wf_mat 3 1 [[5, 6, 9]]
   \<and> (\<exists>vm. varMap [[5, 6, 9]] 3 1 2 = Inr vm \<and> hasShape 1 2 vm)
   \<and> wf_mat 3 2 [[5, 6, 9], [1, 2, 4]]
   \<and> roi [[5, 6, 9], [1, 2, 4]] (blockRect 3 2 2 0 1) = Inr [[9], [4]]
   \<and> varScore [[5, 6, 9], [1, 2, 4]] 3 2 2 0 1 = Inr (25 / 4)
   \<and> prnuScore [[5, 6, 9], [1, 2, 4]] 3 2 2 0 1 = Inr (25 / 4)
   \<and> varMap [[5, 6, 9], [1, 2, 4]] 3 2 2 = Inr [[17 / 4, 25 / 4]]
   \<and> wf_mat 9 9 stepImage
   \<and> gridScore stepImage 9 9 8 0 0 = Inr (47 / 16)
   \<and> gridMap stepImage 9 9 8 = Inr [[47 / 16, 0], [0, 0]]
   \<and> length [10, 0, 0, 255, 20, 0, 0, 255, 30, 0, 0, 255 :: nat] = 4 * 3 * 1
   \<and> length exampleNewData = 4 * 3 * 1
   \<and> elaScore [10, 0, 0, 255, 20, 0, 0, 255, 30, 0, 0, 255] exampleNewData 3 1 2 0 1 = Inr (1 / 4)
   \<and> elaMap [10, 0, 0, 255, 20, 0, 0, 255, 30, 0, 0, 255] exampleNewData 3 1 2
        = Inr [[3 / 4, 1 / 4]]"
proof -
  have h: "(0::nat) < 32" by simp
  note inst = C2_block_grid_ceiling[OF h, of 50 100]
  have n: "byCount 50 32 = 2" "bxCount 100 32 = 4"
    using inst by blast+
  have cov: "(50::nat) \<le> byCount 50 32 * 32" "(100::nat) \<le> bxCount 100 32 * 32"
    using inst by blast+
  have cw: "clippedWidth 100 32 3 = 4" "clippedHeight 50 32 1 = 18"
    by (simp_all add: clippedWidth_def clippedHeight_def)
  have "1 < byCount 50 32" "3 < bxCount 100 32" by (simp_all add: n)
  then have r: "blockRect 100 50 32 1 3 = Rect 96 32 4 18"
    using inst cw by simp
  have wf: "wf_mat 3 1 [[5, 6, 9]]" by (simp add: wf_mat_def)
  have c: "byCount 1 2 = 1" "bxCount 3 2 = 2" by code_simp+
  have h2: "(0::nat) < 2" by simp
  from C2_block_grid_ceiling[OF h2, of 1 3]
  have "\<forall>m. wf_mat 3 1 m \<longrightarrow>
          (\<exists>vm. varMap m 3 1 2 = Inr vm \<and> hasShape (byCount 1 2) (bxCount 3 2) vm)"
    by (elim conjE) simp
  then have v: "\<exists>vm. varMap [[5, 6, 9]] 3 1 2 = Inr vm \<and> hasShape 1 2 vm"
    using wf unfolding c by blast
  let ?m = "[[5, 6, 9], [1, 2, 4 :: real]]"
  have wf2: "wf_mat 3 2 ?m" by (simp add: wf_mat_def)
  have c2: "byCount 2 2 = 1" "bxCount 3 2 = 2" by code_simp+
  have ix: "(0::nat) < byCount 2 2" "(1::nat) < bxCount 3 2" by (simp_all add: c2)
  from C2_block_grid_ceiling[OF h2, of 2 3]
  have "\<forall>m. wf_mat 3 2 m \<longrightarrow>
          (\<forall>by < byCount 2 2. \<forall>bx < bxCount 3 2.
             roi m (blockRect 3 2 2 by bx)
               = Inr (samples m (bx * 2) (by * 2) (clippedWidth 3 2 bx) (clippedHeight 2 2 by))
             \<and> varScore m 3 2 2 by bx = Inr (meanSqMinusSqMean (blockSamples m 3 2 2 by bx))
             \<and> prnuScore m 3 2 2 by bx = Inr (meanSqMinusSqMean (blockSamples m 3 2 2 by bx)))
          \<and> varMap m 3 2 2
              = Inr (map (\<lambda>by. map (\<lambda>bx. meanSqMinusSqMean (blockSamples m 3 2 2 by bx))
                            [0..<bxCount 3 2]) [0..<byCount 2 2])"
    by (elim conjE) simp
  then have blk: "roi ?m (blockRect 3 2 2 0 1)
               = Inr (samples ?m (1 * 2) (0 * 2) (clippedWidth 3 2 1) (clippedHeight 2 2 0))"
    "varScore ?m 3 2 2 0 1 = Inr (meanSqMinusSqMean (blockSamples ?m 3 2 2 0 1))"
    "prnuScore ?m 3 2 2 0 1 = Inr (meanSqMinusSqMean (blockSamples ?m 3 2 2 0 1))"
    and vmap: "varMap ?m 3 2 2
              = Inr (map (\<lambda>by. map (\<lambda>bx. meanSqMinusSqMean (blockSamples ?m 3 2 2 by bx))
                            [0..<bxCount 3 2]) [0..<byCount 2 2])"
    using wf2 ix by blast+
  have sm: "samples ?m (1 * 2) (0 * 2) (clippedWidth 3 2 1) (clippedHeight 2 2 0) = [[9], [4]]"
    by code_simp
  have ms: "meanSqMinusSqMean (blockSamples ?m 3 2 2 0 1) = 25 / 4"
    by code_simp
  have mp: "map (\<lambda>by. map (\<lambda>bx. meanSqMinusSqMean (blockSamples ?m 3 2 2 by bx))
                            [0..<bxCount 3 2]) [0..<byCount 2 2] = [[17 / 4, 25 / 4]]"
    by code_simp
  have e1: "roi ?m (blockRect 3 2 2 0 1) = Inr [[9], [4]]" using blk(1) unfolding sm .
  have e2: "varScore ?m 3 2 2 0 1 = Inr (25 / 4)" using blk(2) unfolding ms .
  have e3: "prnuScore ?m 3 2 2 0 1 = Inr (25 / 4)" using blk(3) unfolding ms .
  have e4: "varMap ?m 3 2 2 = Inr [[17 / 4, 25 / 4]]" using vmap unfolding mp .
  have wf9: "wf_mat 9 9 stepImage" by code_simp
  have h8: "(0::nat) < 8" by simp
  have c9: "byCount 9 8 = 2" "bxCount 9 8 = 2" by code_simp+
  have ix9: "(0::nat) < byCount 9 8" "(0::nat) < bxCount 9 8" by (simp_all add: c9)
  from C2_block_grid_ceiling[OF h8, of 9 9]
  have "\<forall>m. wf_mat 9 9 m \<longrightarrow>
          (\<forall>by < byCount 9 8. \<forall>bx < bxCount 9 8.
             gridScore m 9 9 8 by bx
                 = Inr (if blockBoundaries 9 9 8 by bx = [] then 0
                        else average (map (boundaryDiff m) (blockBoundaries 9 9 8 by bx))))
          \<and> gridMap m 9 9 8
              = Inr (map (\<lambda>by. map (\<lambda>bx. if blockBoundaries 9 9 8 by bx = [] then 0
                        else average (map (boundaryDiff m) (blockBoundaries 9 9 8 by bx)))
                            [0..<bxCount 9 8]) [0..<byCount 9 8])"
    by (elim conjE) simp
  then have g: "gridScore stepImage 9 9 8 0 0
                 = Inr (if blockBoundaries 9 9 8 0 0 = [] then 0
                        else average (map (boundaryDiff stepImage) (blockBoundaries 9 9 8 0 0)))"
    and gm: "gridMap stepImage 9 9 8
              = Inr (map (\<lambda>by. map (\<lambda>bx. if blockBoundaries 9 9 8 by bx = [] then 0
                        else average (map (boundaryDiff stepImage) (blockBoundaries 9 9 8 by bx)))
                            [0..<bxCount 9 8]) [0..<byCount 9 8])"
    using wf9 ix9 by blast+
  have gv: "(if blockBoundaries 9 9 8 0 0 = [] then 0
             else average (map (boundaryDiff stepImage) (blockBoundaries 9 9 8 0 0))) = 47 / 16"
    by code_simp
  have gmv: "map (\<lambda>by. map (\<lambda>bx. if blockBoundaries 9 9 8 by bx = [] then 0
                        else average (map (boundaryDiff stepImage) (blockBoundaries 9 9 8 by bx)))
                            [0..<bxCount 9 8]) [0..<byCount 9 8] = [[47 / 16, 0], [0, 0]]"
    by code_simp
  have e5: "gridScore stepImage 9 9 8 0 0 = Inr (47 / 16)" using g unfolding gv .
  have e6: "gridMap stepImage 9 9 8 = Inr [[47 / 16, 0], [0, 0]]" using gm unfolding gmv .
  let ?o = "[10, 0, 0, 255, 20, 0, 0, 255, 30, 0, 0, 255 :: nat]"
  have l: "length ?o = 4 * 3 * 1" "length exampleNewData = 4 * 3 * 1"
    by (simp_all add: exampleNewData_def)
  from C2_block_grid_ceiling[OF h2, of 1 3]
  have "\<forall>origData newData. length origData = 4 * 3 * 1 \<longrightarrow> length newData = 4 * 3 * 1 \<longrightarrow>
          (\<forall>by bx. elaScore origData newData 3 1 2 by bx
             = Inr (clippedRedSum origData newData 3 1 2 by bx / real (2 * 2)))
          \<and> elaMap origData newData 3 1 2
              = Inr (map (\<lambda>by. map (\<lambda>bx. clippedRedSum origData newData 3 1 2 by bx / real (2 * 2))
                            [0..<bxCount 3 2]) [0..<byCount 1 2])"
    by (elim conjE) simp
  then have es: "elaScore ?o exampleNewData 3 1 2 0 1
             = Inr (clippedRedSum ?o exampleNewData 3 1 2 0 1 / real (2 * 2))"
    and em: "elaMap ?o exampleNewData 3 1 2
              = Inr (map (\<lambda>by. map (\<lambda>bx. clippedRedSum ?o exampleNewData 3 1 2 by bx / real (2 * 2))
                            [0..<bxCount 3 2]) [0..<byCount 1 2])"
    using l by blast+
  have ev: "clippedRedSum ?o exampleNewData 3 1 2 0 1 / real (2 * 2) = 1 / 4"
    by code_simp
  have emv: "map (\<lambda>by. map (\<lambda>bx. clippedRedSum ?o exampleNewData 3 1 2 by bx / real (2 * 2))
                            [0..<bxCount 3 2]) [0..<byCount 1 2] = [[3 / 4, 1 / 4]]"
    by code_simp
  have e7: "elaScore ?o exampleNewData 3 1 2 0 1 = Inr (1 / 4)" using es unfolding ev .
  have e8: "elaMap ?o exampleNewData 3 1 2 = Inr [[3 / 4, 1 / 4]]" using em unfolding emv .
  show ?thesis
    by (intro conjI h n cov r wf v wf2 e1 e2 e3 e4 wf9 e5 e6 l e7 e8)
qed

lemma hasShape_highlightMask:
  "hasShape byC bxC composite \<Longrightarrow> hasShape byC bxC (highlightMask composite t)"
  by (simp add: highlightMask_def hasShape_def list_all_iff)

lemma runAnalysis_wf:
  assumes "0 < w" "0 < h" "0 < blockSize" "wf_mat w h gray" "wf_mat w h (fst (denoise cv gray))"
    and "length origData = 4 * w * h" "length newData = 4 * w * h"
  shows "\<exists>p out. onload cv w h gray origData blockSize thresholdPercent = Inr p
          \<and> p_prnuMap p
              = map (\<lambda>by. map (\<lambda>bx. meanSqMinusSqMean
                        (blockSamples (difference w h gray (fst (denoise cv gray))) w h blockSize by bx))
                         [0..<bxCount w blockSize]) [0..<byCount h blockSize]
          \<and> runAnalysis cv w h gray origData newData blockSize thresholdPercent = Inr out
          \<and> o_console out = snd (denoise cv gray)
          \<and> o_composite out
              = fusionMap (p_varMap p) (p_gridMap p) (p_prnuMap p)
                  (elaGrid origData newData w h blockSize)
                  (byCount h blockSize) (bxCount w blockSize)
          \<and> o_thr out = thr (o_composite out) thresholdPercent
          \<and> o_mask out = highlightMask (o_composite out) (o_thr out)
          \<and> o_rects out = fillRects blockSize (o_composite out) (o_thr out)
          \<and> hasShape (byCount h blockSize) (bxCount w blockSize) (o_composite out)
          \<and> hasShape (byCount h blockSize) (bxCount w blockSize) (o_mask out)"
proof -
  define p where "p = \<lparr>p_w = w, p_h = h, p_blockSize = blockSize, p_thresholdPercent = thresholdPercent,
                 p_varMap = map (\<lambda>by. map (\<lambda>bx. meanSqMinusSqMean (blockSamples gray w h blockSize by bx))
                         [0..<bxCount w blockSize]) [0..<byCount h blockSize],
                 p_gridMap = map (\<lambda>by. map (\<lambda>bx. if blockBoundaries w h blockSize by bx = [] then 0
                     else average (map (boundaryDiff gray) (blockBoundaries w h blockSize by bx)))
                         [0..<bxCount w blockSize]) [0..<byCount h blockSize],
                 p_prnuMap = map (\<lambda>by. map (\<lambda>bx. meanSqMinusSqMean
                        (blockSamples (difference w h gray (fst (denoise cv gray))) w h blockSize by bx))
                         [0..<bxCount w blockSize]) [0..<byCount h blockSize],
                 p_origData = origData, p_console = snd (denoise cv gray)\<rparr>"
  have on: "onload cv w h gray origData blockSize thresholdPercent = Inr p"
    unfolding p_def by (rule onload_wf[OF assms(1-5)])
  have sel: "p_w p = w" "p_h p = h" "p_blockSize p = blockSize" "p_origData p = origData"
    "p_thresholdPercent p = thresholdPercent" "p_console p = snd (denoise cv gray)"
    by (simp_all add: p_def)
  have shapes: "hasShape (byCount (p_h p) (p_blockSize p)) (bxCount (p_w p) (p_blockSize p)) (p_varMap p)"
    "hasShape (byCount (p_h p) (p_blockSize p)) (bxCount (p_w p) (p_blockSize p)) (p_gridMap p)"
    "hasShape (byCount (p_h p) (p_blockSize p)) (bxCount (p_w p) (p_blockSize p)) (p_prnuMap p)"
    by (simp_all add: p_def hasShape_grid)
  have lens: "length (p_origData p) = 4 * p_w p * p_h p" "length newData = 4 * p_w p * p_h p"
    using assms(6,7) by (simp_all add: sel)
  define comp where "comp = fusionMap (p_varMap p) (p_gridMap p) (p_prnuMap p)
                  (elaGrid origData newData w h blockSize)
                  (byCount h blockSize) (bxCount w blockSize)"
  define out where "out = \<lparr>o_composite = comp, o_thr = thr comp thresholdPercent,
               o_mask = highlightMask comp (thr comp thresholdPercent),
               o_rects = fillRects blockSize comp (thr comp thresholdPercent),
               o_console = snd (denoise cv gray)\<rparr>"
  have "onload2 p newData = Inr out"
    unfolding onload2_wf[OF shapes lens] by (simp add: Let_def sel out_def comp_def)
  then have run: "runAnalysis cv w h gray origData newData blockSize thresholdPercent = Inr out"
    by (simp add: runAnalysis_def on)
  have cshape: "hasShape (byCount h blockSize) (bxCount w blockSize) comp"
    by (simp add: comp_def hasShape_fusionMap)
  have pr: "p_prnuMap p
              = map (\<lambda>by. map (\<lambda>bx. meanSqMinusSqMean
                        (blockSamples (difference w h gray (fst (denoise cv gray))) w h blockSize by bx))
                         [0..<bxCount w blockSize]) [0..<byCount h blockSize]"
    by (simp add: p_def)
  show ?thesis
    by (intro exI[of _ p] exI[of _ out] conjI on pr run)
       (simp_all add: out_def comp_def[symmetric] cshape hasShape_highlightMask)
qed

text \<open>
  C8. If \<^verbatim>\<open>cv.fastNlMeansDenoising\<close> is missing, \<^verbatim>\<open>denoise\<close> returns the
  Gaussian blur of the grayscale image with a 3 by 3 kernel and the default border mode,
  and logs one warning; the residual-noise detector works on the difference to that blur,
  and the analysis produces its result, with the warning and no error. If the filter is
  present it is called with strength 10, template window 7 and search window 21, and
  nothing is logged.
\<close>

theorem C8_denoise_fallback:
  assumes "fastNlMeansDenoising cv = None"
    and "0 < w" "0 < h" "0 < blockSize" "wf_mat w h gray"
    and "wf_mat w h (GaussianBlur cv gray (3, 3) 0 0 BORDER_DEFAULT)"
    and "length origData = 4 * w * h" "length newData = 4 * w * h"
  shows "denoise cv gray
           = (GaussianBlur cv gray (3, 3) 0 0 BORDER_DEFAULT,
              [(WarnLevel, ''[ForensicsOverlay] fastNlMeansDenoising unavailable, using GaussianBlur'')])
    \<and> (\<exists>p out. onload cv w h gray origData blockSize thresholdPercent = Inr p
          \<and> p_prnuMap p
              = map (\<lambda>by. map (\<lambda>bx. meanSqMinusSqMean
                        (blockSamples
                           (difference w h gray (GaussianBlur cv gray (3, 3) 0 0 BORDER_DEFAULT))
                           w h blockSize by bx))
                         [0..<bxCount w blockSize]) [0..<byCount h blockSize]
          \<and> runAnalysis cv w h gray origData newData blockSize thresholdPercent = Inr out
          \<and> o_console out
              = [(WarnLevel, ''[ForensicsOverlay] fastNlMeansDenoising unavailable, using GaussianBlur'')]
          \<and> hasShape (byCount h blockSize) (bxCount w blockSize) (o_composite out)
          \<and> hasShape (byCount h blockSize) (bxCount w blockSize) (o_mask out))
    \<and> (\<forall>cv' nlm. fastNlMeansDenoising cv' = Some nlm \<longrightarrow>
          denoise cv' gray = (nlm gray 10 7 21, []))"
proof -
  have d: "denoise cv gray
           = (GaussianBlur cv gray (3, 3) 0 0 BORDER_DEFAULT,
              [(WarnLevel, ''[ForensicsOverlay] fastNlMeansDenoising unavailable, using GaussianBlur'')])"
    using assms(1) by (simp add: denoise_def)
  have wfd: "wf_mat w h (fst (denoise cv gray))"
    using assms(6) by (simp add: d)
  from runAnalysis_wf[OF assms(2,3,4,5) wfd assms(7,8), of thresholdPercent]
  have run: "\<exists>p out. onload cv w h gray origData blockSize thresholdPercent = Inr p
          \<and> p_prnuMap p
              = map (\<lambda>by. map (\<lambda>bx. meanSqMinusSqMean
                        (blockSamples
                           (difference w h gray (GaussianBlur cv gray (3, 3) 0 0 BORDER_DEFAULT))
                           w h blockSize by bx))
                         [0..<bxCount w blockSize]) [0..<byCount h blockSize]
          \<and> runAnalysis cv w h gray origData newData blockSize thresholdPercent = Inr out
          \<and> o_console out
              = [(WarnLevel, ''[ForensicsOverlay] fastNlMeansDenoising unavailable, using GaussianBlur'')]
          \<and> hasShape (byCount h blockSize) (bxCount w blockSize) (o_composite out)
          \<and> hasShape (byCount h blockSize) (bxCount w blockSize) (o_mask out)"
    unfolding d fst_conv snd_conv by blast
  have avail: "\<forall>cv' nlm. fastNlMeansDenoising cv' = Some nlm \<longrightarrow>
          denoise cv' gray = (nlm gray 10 7 21, [])"
    by (simp add: denoise_def)
  show ?thesis
    by (intro conjI d run avail)
qed

theorem C8_denoise_fallback_witness:
  "fastNlMeansDenoising blurOnlyEnv = None
   \<and> (0::nat) < 3 \<and> (0::nat) < 1 \<and> (0::nat) < 2
   \<and> wf_mat 3 1 [[5, 6, 9]]
   \<and> wf_mat 3 1 (GaussianBlur blurOnlyEnv [[5, 6, 9]] (3, 3) 0 0 BORDER_DEFAULT)
   \<and> length (p_origData examplePending) = 4 * 3 * 1
   \<and> length exampleNewData = 4 * 3 * 1
   \<and> snd (denoise blurOnlyEnv [[5, 6, 9]])
        = [(WarnLevel, ''[ForensicsOverlay] fastNlMeansDenoising unavailable, using GaussianBlur'')]
   \<and> (\<exists>out. runAnalysis blurOnlyEnv 3 1 [[5, 6, 9]] (p_origData examplePending) exampleNewData 2 80
               = Inr out
         \<and> o_console out
            = [(WarnLevel, ''[ForensicsOverlay] fastNlMeansDenoising unavailable, using GaussianBlur'')])"
proof -
  have h1: "fastNlMeansDenoising blurOnlyEnv = None" by (simp add: blurOnlyEnv_def)
  have h2: "(0::nat) < 3" "(0::nat) < 1" "(0::nat) < 2" by simp_all
  have h3: "wf_mat 3 1 [[5, 6, 9]]" by (simp add: wf_mat_def)
  have h4: "wf_mat 3 1 (GaussianBlur blurOnlyEnv [[5, 6, 9]] (3, 3) 0 0 BORDER_DEFAULT)"
    by (simp add: blurOnlyEnv_def wf_mat_def)
  have h5: "length (p_origData examplePending) = 4 * 3 * 1" by (simp add: examplePending_def)
  have h6: "length exampleNewData = 4 * 3 * 1" by (simp add: exampleNewData_def)
  note inst = C8_denoise_fallback[OF h1 h2 h3 h4 h5 h6, of 80]
  have s: "snd (denoise blurOnlyEnv [[5, 6, 9]])
        = [(WarnLevel, ''[ForensicsOverlay] fastNlMeansDenoising unavailable, using GaussianBlur'')]"
    using inst[THEN conjunct1] by simp
  have r: "\<exists>out. runAnalysis blurOnlyEnv 3 1 [[5, 6, 9]] (p_origData examplePending) exampleNewData 2 80
               = Inr out
         \<and> o_console out
            = [(WarnLevel, ''[ForensicsOverlay] fastNlMeansDenoising unavailable, using GaussianBlur'')]"
    using inst[THEN conjunct2, THEN conjunct1] by blast
  show ?thesis
    by (intro conjI h1 h2 h3 h4 h5 h6 s r)
qed

lemma map_const_replicate: "map (\<lambda>x. k) xs = replicate (length xs) k"
  by (induction xs) simp_all

lemma concat_replicate_const: "concat (replicate n (replicate m c)) = replicate (n * m) c"
  by (induction n) (simp_all add: replicate_add)

lemma wf_uniformImage: "wf_mat w h (uniformImage w h c)"
  by (simp add: uniformImage_def wf_mat_def list_all_iff)

lemma uniformImage_nth: "i < h \<Longrightarrow> j < w \<Longrightarrow> uniformImage w h c ! i ! j = c"
  by (simp add: uniformImage_def)

lemma samples_uniform:
  assumes "x + wd \<le> w" "y + ht \<le> h"
  shows "concat (samples (uniformImage w h c) x y wd ht) = replicate (ht * wd) c"
proof -
  have "samples (uniformImage w h c) x y wd ht = replicate ht (replicate wd c)"
    using assms
    by (auto simp: samples_def uniformImage_nth intro!: nth_equalityI)
  then show ?thesis
    by (simp add: concat_replicate_const)
qed

lemma sum_list_replicate_real: "sum_list (replicate n (c::real)) = real n * c"
  by (induction n) (simp_all add: algebra_simps)

lemma meanSqMinusSqMean_replicate:
  assumes "0 < n"
  shows "meanSqMinusSqMean (replicate n c) = 0"
  using assms by (simp add: meanSqMinusSqMean_def average_def sum_list_replicate_real)

lemma blockSamples_uniform:
  assumes "0 < blockSize" "by < byCount h blockSize" "bx < bxCount w blockSize"
  shows "blockSamples (uniformImage w h c) w h blockSize by bx
           = replicate (clippedHeight h blockSize by * clippedWidth w blockSize bx) c"
    and "0 < clippedHeight h blockSize by * clippedWidth w blockSize bx"
proof -
  have y: "by * blockSize < h" and x: "bx * blockSize < w"
    using assms by (simp_all add: byCount_def bxCount_def count_less_iff)
  have b: "0 < clippedWidth w blockSize bx" "bx * blockSize + clippedWidth w blockSize bx \<le> w"
    "0 < clippedHeight h blockSize by" "by * blockSize + clippedHeight h blockSize by \<le> h"
    using clipped_bounds[OF assms(1) x] clipped_bounds[OF assms(1) y]
    by (simp_all add: clippedWidth_def clippedHeight_def)
  show "blockSamples (uniformImage w h c) w h blockSize by bx
           = replicate (clippedHeight h blockSize by * clippedWidth w blockSize bx) c"
    unfolding blockSamples_def by (rule samples_uniform[OF b(2) b(4)])
  show "0 < clippedHeight h blockSize by * clippedWidth w blockSize bx"
    using b by simp
qed

lemma grid_eq_constantMap:
  assumes "\<And>by bx. by < byCount h blockSize \<Longrightarrow> bx < bxCount w blockSize \<Longrightarrow> g by bx = v"
  shows "map (\<lambda>by. map (\<lambda>bx. g by bx) [0..<bxCount w blockSize]) [0..<byCount h blockSize]
           = constantMap w h blockSize v"
  using assms by (auto simp: constantMap_def intro!: nth_equalityI)

lemma varMap_uniform:
  assumes "0 < blockSize"
  shows "varMap (uniformImage w h c) w h blockSize = Inr (constantMap w h blockSize 0)"
  unfolding varMap_wf[OF wf_uniformImage assms]
  using blockSamples_uniform[OF assms]
  by (simp add: grid_eq_constantMap meanSqMinusSqMean_replicate)

lemma prnuMap_uniform:
  assumes "0 < blockSize"
  shows "prnuMap (uniformImage w h c) w h blockSize = Inr (constantMap w h blockSize 0)"
  unfolding prnuMap_wf[OF wf_uniformImage assms]
  using blockSamples_uniform[OF assms]
  by (simp add: grid_eq_constantMap meanSqMinusSqMean_replicate)

lemma boundaryDiff_uniform:
  assumes "boundaryInside w h b"
  shows "boundaryDiff (uniformImage w h c) b = 0"
proof (cases b)
  case (RightEdge x0 y0)
  then have in_x: "x0 + gridSize < w" and in_y: "y0 + gridSize \<le> h" using assms by simp_all
  have "\<bar>uniformImage w h c ! (y0 + i) ! (x0 + gridSize - 1)
          - uniformImage w h c ! (y0 + i) ! (x0 + gridSize)\<bar> = 0"
    if "i < gridSize" for i
    using that in_x in_y by (simp add: uniformImage_nth)
  then have eq: "map (\<lambda>i. \<bar>uniformImage w h c ! (y0 + i) ! (x0 + gridSize - 1)
          - uniformImage w h c ! (y0 + i) ! (x0 + gridSize)\<bar>) [0..<gridSize]
        = map (\<lambda>i. 0) [0..<gridSize]"
    by (intro map_cong) simp_all
  show ?thesis
    unfolding RightEdge boundaryDiff.simps eq by (simp add: average_def)
next
  case (BottomEdge x0 y0)
  then have in_x: "x0 + gridSize \<le> w" and in_y: "y0 + gridSize < h" using assms by simp_all
  have "\<bar>uniformImage w h c ! (y0 + gridSize - 1) ! (x0 + j)
          - uniformImage w h c ! (y0 + gridSize) ! (x0 + j)\<bar> = 0"
    if "j < gridSize" for j
    using that in_x in_y by (simp add: uniformImage_nth)
  then have eq: "map (\<lambda>j. \<bar>uniformImage w h c ! (y0 + gridSize - 1) ! (x0 + j)
          - uniformImage w h c ! (y0 + gridSize) ! (x0 + j)\<bar>) [0..<gridSize]
        = map (\<lambda>j. 0) [0..<gridSize]"
    by (intro map_cong) simp_all
  show ?thesis
    unfolding BottomEdge boundaryDiff.simps eq by (simp add: average_def)
qed

lemma gridMap_uniform:
  "gridMap (uniformImage w h c) w h blockSize = Inr (constantMap w h blockSize 0)"
proof -
  have "average (map (boundaryDiff (uniformImage w h c)) (blockBoundaries w h blockSize by bx)) = 0"
    for "by" bx
  proof -
    have eq: "map (boundaryDiff (uniformImage w h c)) (blockBoundaries w h blockSize by bx)
          = map (\<lambda>b. 0) (blockBoundaries w h blockSize by bx)"
      by (intro map_cong refl boundaryDiff_uniform) (simp add: blockBoundaries_def)
    show ?thesis unfolding eq by (simp add: average_def)
  qed
  then show ?thesis
    unfolding gridMap_wf[OF wf_uniformImage]
    by (simp add: grid_eq_constantMap)
qed

lemma difference_uniform: "difference w h (uniformImage w h c) (uniformImage w h c) = uniformImage w h 0"
  by (auto simp: difference_def uniformImage_def intro!: nth_equalityI)

lemma clippedRedSum_preserved:
  assumes "redPreserved w h origData newData"
  shows "clippedRedSum origData newData w h blockSize by bx = 0"
proof -
  have red: "redDiff origData newData w py px = 0" if "py < h" "px < w" for py px
  proof -
    have "py * w + px < py * w + w" using that(2) by simp
    also have "\<dots> = Suc py * w" by simp
    also have "\<dots> \<le> h * w" using that(1) by (intro mult_le_mono1) simp
    finally have "py * w + px < w * h" by (simp add: mult.commute)
    then have "newData ! (4 * (py * w + px)) = origData ! (4 * (py * w + px))"
      using assms[unfolded redPreserved_def list_all_iff, rule_format, of "py * w + px"]
      by simp
    then show ?thesis
      unfolding redDiff_def mult.commute[of _ 4] by simp
  qed
  have row: "(\<Sum>px\<leftarrow>[bx * blockSize..<min (bx * blockSize + blockSize) w].
                 redDiff origData newData w py px) = 0" if "py < h" for py
  proof -
    have eq: "map (\<lambda>px. redDiff origData newData w py px) [bx * blockSize..<min (bx * blockSize + blockSize) w]
          = map (\<lambda>px. 0) [bx * blockSize..<min (bx * blockSize + blockSize) w]"
      using that by (intro map_cong refl red) simp_all
    show ?thesis unfolding eq by simp
  qed
  have eq: "map (\<lambda>py. \<Sum>px\<leftarrow>[bx * blockSize..<min (bx * blockSize + blockSize) w].
                 redDiff origData newData w py px) [by * blockSize..<min (by * blockSize + blockSize) h]
        = map (\<lambda>py. 0) [by * blockSize..<min (by * blockSize + blockSize) h]"
    by (intro map_cong refl row) simp
  show ?thesis
    unfolding clippedRedSum_def eq by simp
qed

lemma elaGrid_preserved:
  assumes "redPreserved w h origData newData"
  shows "elaGrid origData newData w h blockSize = constantMap w h blockSize 0"
  unfolding elaGrid_def
  by (simp add: clippedRedSum_preserved[OF assms] grid_eq_constantMap)

lemma hasShape_constantMap:
  "hasShape (byCount h blockSize) (bxCount w blockSize) (constantMap w h blockSize v)"
  by (simp add: hasShape_def constantMap_def list_all_iff)

lemma constantMap_nth:
  "by < byCount h blockSize \<Longrightarrow> bx < bxCount w blockSize \<Longrightarrow> constantMap w h blockSize v ! by ! bx = v"
  by (simp add: constantMap_def)

lemma flat_constantMap:
  "flat (constantMap w h blockSize v) = replicate (byCount h blockSize * bxCount w blockSize) v"
  by (simp add: flat_def constantMap_def concat_replicate_const)

lemma count_pos:
  assumes "0 < blockSize" "0 < n"
  shows "0 < nat \<lceil>real n / real blockSize\<rceil>"
  using count_less_iff[OF assms(1), of 0 n] assms(2) by simp

lemma minMax_constant:
  assumes "0 < n"
  shows "minMax (replicate n v) v = 0"
  using assms by (simp add: minMax_def)

lemma normalize_constantMap:
  "normalizeMap (constantMap w h blockSize v) = constantMap w h blockSize 0"
proof (cases "0 < byCount h blockSize * bxCount w blockSize")
  case True
  then show ?thesis
    unfolding normalize_eq flat_constantMap
    by (simp add: constantMap_def minMax_constant)
next
  case False
  then have "byCount h blockSize = 0 \<or> bxCount w blockSize = 0" by simp
  then show ?thesis
    unfolding normalize_eq by (auto simp: constantMap_def)
qed

lemma invert_constantMap: "invert (constantMap w h blockSize v) = constantMap w h blockSize (1 - v)"
  by (simp add: invert_def constantMap_def)

lemma fusion_constant:
  assumes "by < byCount h blockSize" "bx < bxCount w blockSize"
    and "0 < byCount h blockSize * bxCount w blockSize"
  shows "fusion (constantMap w h blockSize a) (constantMap w h blockSize b)
           (constantMap w h blockSize c) (constantMap w h blockSize d) by bx = 3 / 4"
  using assms
  by (simp add: fusion_def flat_constantMap constantMap_nth minMax_constant)

lemma fusionMap_constant:
  assumes "0 < byCount h blockSize * bxCount w blockSize"
  shows "fusionMap (constantMap w h blockSize a) (constantMap w h blockSize b)
           (constantMap w h blockSize c) (constantMap w h blockSize d)
           (byCount h blockSize) (bxCount w blockSize)
         = constantMap w h blockSize (3 / 4)"
  unfolding fusionMap_def
  by (rule grid_eq_constantMap) (rule fusion_constant[OF _ _ assms])

lemma sort_replicate: "sort (replicate n (v::real)) = replicate n v"
  by (induction n) (simp_all add: insort_is_Cons)

lemma thr_constantMap:
  assumes "0 < byCount h blockSize * bxCount w blockSize" "0 \<le> thresholdPercent" "thresholdPercent < 100"
  shows "thr (constantMap w h blockSize v) thresholdPercent = Some v"
proof -
  let ?N = "byCount h blockSize * bxCount w blockSize"
  have fc: "flatC (constantMap w h blockSize v) = replicate ?N v"
    by (simp add: flatC_def flat_constantMap sort_replicate)
  have le: "thresholdPercent \<le> 100" using assms(3) by simp
  have lt: "\<lfloor>real ?N * thresholdPercent / 100\<rfloor> < int ?N"
    using thrIndex_in_range_iff[OF assms(2) le, of ?N] assms(1,3) by simp
  have ge: "0 \<le> \<lfloor>real ?N * thresholdPercent / 100\<rfloor>"
    using assms(2) by simp
  have "nat \<lfloor>real ?N * thresholdPercent / 100\<rfloor> < ?N"
    using lt ge by linarith
  then show ?thesis
    using lt ge by (simp add: thr_def thrIndex_def js_index_def fc)
qed

lemma highlightMask_constantMap:
  "highlightMask (constantMap w h blockSize v) (Some v) = constantMap w h blockSize True"
  by (simp add: highlightMask_def constantMap_def js_ge_def)

lemma compositeMap_constant:
  "compositeMap (constantMap w h blockSize a) (constantMap w h blockSize b)
     (constantMap w h blockSize c) (constantMap w h blockSize d)
   = Inr (constantMap w h blockSize ((a + b + c + d) / 4))"
  unfolding compositeMap_wf[OF hasShape_constantMap hasShape_constantMap
      hasShape_constantMap hasShape_constantMap]
  by (simp add: grid_eq_constantMap constantMap_nth)

text \<open>
  C4, as the code has it. For a uniform image with at least one pixel, a denoiser that
  returns a constant image unchanged, a round trip that gives back the red byte of every
  pixel, and \<open>thresholdPercent\<close> in \<open>[0, 100)\<close>: the variance, grid-artifact and
  residual-noise maps are zero everywhere, normalisation maps every value to
  \<open>0 / (0 + 1e-8) = 0\<close>, inversion gives 1 everywhere, the composite map is 3/4 in
  every block, the threshold is 3/4 and every block is marked.
\<close>

theorem C4_uniform_image_all_marked:
  assumes "0 < w" "0 < h" "0 < blockSize"
    and "fst (denoise cv (uniformImage w h c)) = uniformImage w h c"
    and "length origData = 4 * w * h" "length newData = 4 * w * h"
    and "redPreserved w h origData newData"
    and "0 \<le> thresholdPercent" "thresholdPercent < 100"
  shows "varMap (uniformImage w h c) w h blockSize = Inr (constantMap w h blockSize 0)
    \<and> gridMap (uniformImage w h c) w h blockSize = Inr (constantMap w h blockSize 0)
    \<and> cv_subtract (uniformImage w h c) (fst (denoise cv (uniformImage w h c)))
          = Inr (uniformImage w h 0)
    \<and> prnuMap (uniformImage w h 0) w h blockSize = Inr (constantMap w h blockSize 0)
    \<and> normalizeMap (constantMap w h blockSize 0) = constantMap w h blockSize 0
    \<and> invert (normalizeMap (constantMap w h blockSize 0)) = constantMap w h blockSize 1
    \<and> elaMap origData newData w h blockSize = Inr (constantMap w h blockSize 0)
    \<and> 0 < byCount h blockSize * bxCount w blockSize
    \<and> runAnalysis cv w h (uniformImage w h c) origData newData blockSize thresholdPercent
          = Inr \<lparr>o_composite = constantMap w h blockSize (3 / 4),
                  o_thr = Some (3 / 4),
                  o_mask = constantMap w h blockSize True,
                  o_rects = fillRects blockSize (constantMap w h blockSize (3 / 4)) (Some (3 / 4)),
                  o_console = snd (denoise cv (uniformImage w h c))\<rparr>"
proof -
  let ?u = "uniformImage w h c"
  have v: "varMap ?u w h blockSize = Inr (constantMap w h blockSize 0)"
    by (rule varMap_uniform[OF assms(3)])
  have g: "gridMap ?u w h blockSize = Inr (constantMap w h blockSize 0)"
    by (rule gridMap_uniform)
  have s: "cv_subtract ?u (fst (denoise cv ?u)) = Inr (uniformImage w h 0)"
    unfolding assms(4) cv_subtract_wf[OF wf_uniformImage wf_uniformImage] difference_uniform ..
  have r: "prnuMap (uniformImage w h 0) w h blockSize = Inr (constantMap w h blockSize 0)"
    by (rule prnuMap_uniform[OF assms(3)])
  have n: "normalizeMap (constantMap w h blockSize 0) = constantMap w h blockSize (0::real)"
    by (rule normalize_constantMap)
  have i: "invert (normalizeMap (constantMap w h blockSize 0)) = constantMap w h blockSize 1"
    unfolding n invert_constantMap by simp
  have e: "elaMap origData newData w h blockSize = Inr (constantMap w h blockSize 0)"
    unfolding elaMap_grid[OF assms(5,6)] elaGrid_preserved[OF assms(7)] ..
  have pos: "0 < byCount h blockSize * bxCount w blockSize"
    using count_pos[OF assms(3,2)] count_pos[OF assms(3,1)]
    by (simp add: byCount_def bxCount_def)
  have on: "onload cv w h ?u origData blockSize thresholdPercent
         = Inr \<lparr>p_w = w, p_h = h, p_blockSize = blockSize, p_thresholdPercent = thresholdPercent,
                 p_varMap = constantMap w h blockSize 0, p_gridMap = constantMap w h blockSize 0,
                 p_prnuMap = constantMap w h blockSize 0,
                 p_origData = origData, p_console = snd (denoise cv ?u)\<rparr>"
    using assms(1,2,3) s by (simp add: onload_def v g split_def Let_def r)
  have t: "thr (constantMap w h blockSize (3 / 4)) thresholdPercent = Some (3 / 4)"
    by (rule thr_constantMap[OF pos assms(8,9)])
  have run: "runAnalysis cv w h ?u origData newData blockSize thresholdPercent
          = Inr \<lparr>o_composite = constantMap w h blockSize (3 / 4),
                  o_thr = Some (3 / 4),
                  o_mask = constantMap w h blockSize True,
                  o_rects = fillRects blockSize (constantMap w h blockSize (3 / 4)) (Some (3 / 4)),
                  o_console = snd (denoise cv ?u)\<rparr>"
    unfolding runAnalysis_def on bindE_Inr
    by (simp add: onload2_def e n invert_constantMap compositeMap_constant Let_def t highlightMask_constantMap)
  show ?thesis
    by (intro conjI v g s r n i e pos run)
qed

theorem C4_uniform_image_all_marked_witness:
  "(0::nat) < 3 \<and> (0::nat) < 1 \<and> (0::nat) < 2
   \<and> fst (denoise identityEnv (uniformImage 3 1 5)) = uniformImage 3 1 5
   \<and> length [5, 0, 0, 255, 5, 0, 0, 255, 5, 0, 0, 255 :: nat] = 4 * 3 * 1
   \<and> length [5, 9, 9, 255, 5, 9, 9, 255, 5, 9, 9, 255 :: nat] = 4 * 3 * 1
   \<and> redPreserved 3 1 [5, 0, 0, 255, 5, 0, 0, 255, 5, 0, 0, 255]
        [5, 9, 9, 255, 5, 9, 9, 255, 5, 9, 9, 255]
   \<and> (0::real) \<le> 80 \<and> (80::real) < 100
   \<and> runAnalysis identityEnv 3 1 (uniformImage 3 1 5) [5, 0, 0, 255, 5, 0, 0, 255, 5, 0, 0, 255]
        [5, 9, 9, 255, 5, 9, 9, 255, 5, 9, 9, 255] 2 80
      = Inr \<lparr>o_composite = [[3 / 4, 3 / 4]], o_thr = Some (3 / 4), o_mask = [[True, True]],
              o_rects = [(0, 0, 2, 2), (2, 0, 2, 2)], o_console = []\<rparr>"
proof -
  have h1: "(0::nat) < 3" "(0::nat) < 1" "(0::nat) < 2" by simp_all
  have h2: "fst (denoise identityEnv (uniformImage 3 1 5)) = uniformImage 3 1 5"
    by (simp add: denoise_def identityEnv_def)
  have h3: "length [5, 0, 0, 255, 5, 0, 0, 255, 5, 0, 0, 255 :: nat] = 4 * 3 * 1"
    "length [5, 9, 9, 255, 5, 9, 9, 255, 5, 9, 9, 255 :: nat] = 4 * 3 * 1" by simp_all
  have h4: "redPreserved 3 1 [5, 0, 0, 255, 5, 0, 0, 255, 5, 0, 0, 255]
        [5, 9, 9, 255, 5, 9, 9, 255, 5, 9, 9, 255]"
    by code_simp
  have h5: "(0::real) \<le> 80" "(80::real) < 100" by simp_all
  have c1: "constantMap 3 1 2 (3 / 4 :: real) = [[3 / 4, 3 / 4]]" by code_simp
  have c2: "constantMap 3 1 2 True = [[True, True]]" by code_simp
  have c3: "fillRects 2 [[3 / 4, 3 / 4]] (Some (3 / 4)) = [(0, 0, 2, 2), (2, 0, 2, 2)]" by code_simp
  have c4: "snd (denoise identityEnv (uniformImage 3 1 5)) = []"
    by (simp add: denoise_def identityEnv_def)
  have r: "runAnalysis identityEnv 3 1 (uniformImage 3 1 5) [5, 0, 0, 255, 5, 0, 0, 255, 5, 0, 0, 255]
        [5, 9, 9, 255, 5, 9, 9, 255, 5, 9, 9, 255] 2 80
      = Inr \<lparr>o_composite = [[3 / 4, 3 / 4]], o_thr = Some (3 / 4), o_mask = [[True, True]],
              o_rects = [(0, 0, 2, 2), (2, 0, 2, 2)], o_console = []\<rparr>"
    using C4_uniform_image_all_marked[OF h1 h2 h3 h4 h5]
    unfolding c1 c2 c3 c4 by blast
  show ?thesis
    by (intro conjI h1 h2 h3 h4 h5 r)
qed

text \<open>
  C4 as stated fails in two ways. With \<open>thresholdPercent = 100\<close> the threshold of a
  uniform 1 by 1 image is \<^verbatim>\<open>undefined\<close> and its block is not marked. With a round
  trip that shifts the red byte of every pixel by one, a uniform 3 by 1 image with block
  size 2 has the ELA scores 2/4 and 1/4, the composite map is not constant, and the
  one-pixel block is not marked.
\<close>

theorem C4_counterexample:
  "runAnalysis identityEnv 1 1 (uniformImage 1 1 5) [5, 0, 0, 255] [5, 0, 0, 255] 1 100
     = Inr \<lparr>o_composite = [[3 / 4]], o_thr = None, o_mask = [[False]],
             o_rects = [], o_console = []\<rparr>
   \<and> runAnalysis identityEnv 3 1 (uniformImage 3 1 5)
       [5, 0, 0, 255, 5, 0, 0, 255, 5, 0, 0, 255] [6, 0, 0, 255, 6, 0, 0, 255, 6, 0, 0, 255] 2 80
     = Inr \<lparr>o_composite = [[100000003 / 100000004, 3 / 4]],
             o_thr = Some (100000003 / 100000004), o_mask = [[True, False]],
             o_rects = [(0, 0, 2, 2)], o_console = []\<rparr>"
  by code_simp

lemma replaced_state:
  "replaced =
     \<lparr>s_canvas = \<lparr>c_width = 1, c_height = 1, c_image = Some ''b.png'', c_rects = []\<rparr>,
      s_loading = True, s_src = ''b.png'',
      s_loads = [\<lparr>l_image = imageA, l_blockSize = 1, l_thresholdPercent = 80\<rparr>,
                 \<lparr>l_image = imageB, l_blockSize = 1, l_thresholdPercent = 80\<rparr>],
      s_trips =
        [\<lparr>t_image = imageA,
           t_pending = \<lparr>p_w = 1, p_h = 1, p_blockSize = 1, p_thresholdPercent = 80,
                         p_varMap = [[0]], p_gridMap = [[0]], p_prnuMap = [[0]],
                         p_origData = [5, 0, 0, 255], p_console = []\<rparr>\<rparr>,
         \<lparr>t_image = imageB,
           t_pending = \<lparr>p_w = 1, p_h = 1, p_blockSize = 1, p_thresholdPercent = 80,
                         p_varMap = [[0]], p_gridMap = [[0]], p_prnuMap = [[0]],
                         p_origData = [7, 0, 0, 255], p_console = []\<rparr>\<rparr>],
      s_console = []\<rparr>"
  by code_simp

lemma stale_outcome:
  "onload2 \<lparr>p_w = 1, p_h = 1, p_blockSize = 1, p_thresholdPercent = 80,
             p_varMap = [[0]], p_gridMap = [[0]], p_prnuMap = [[0]],
             p_origData = [5, 0, 0, 255], p_console = []\<rparr> [5, 0, 0, 255]
     = Inr \<lparr>o_composite = [[3 / 4]], o_thr = Some (3 / 4), o_mask = [[True]],
             o_rects = [(0, 0, 1, 1)], o_console = []\<rparr>"
  by code_simp

text \<open>
  C9, as the code has it. The component keeps no run or generation token and
  \<^verbatim>\<open>img2.onload\<close> makes no test for staleness. When an outstanding round trip
  completes and its computation succeeds, the image of its own run and its highlight
  rectangles are drawn on the canvas and \<^verbatim>\<open>loading\<close> is cleared, whatever source is
  current at that moment; nothing is logged as an error.
\<close>

theorem C9_round_trip_result_always_written:
  assumes "k < length (s_trips s)"
    and "onload2 (t_pending (s_trips s ! k)) newData = Inr out"
  shows "step cv s (RoundTripDone k newData)
           = s\<lparr>s_canvas := (s_canvas s)\<lparr>c_image := Some (i_src (t_image (s_trips s ! k))),
                                       c_rects := o_rects out\<rparr>,
               s_loading := False\<rparr>
    \<and> s_console (step cv s (RoundTripDone k newData)) = s_console s
    \<and> (\<forall>current. step cv (s\<lparr>s_src := current\<rparr>) (RoundTripDone k newData)
                      = (step cv s (RoundTripDone k newData))\<lparr>s_src := current\<rparr>)"
proof -
  have idx: "js_index (s_trips s) (int k) = Some (s_trips s ! k)"
    using assms(1) by (simp add: js_index_def)
  have st: "step cv s (RoundTripDone k newData)
           = s\<lparr>s_canvas := (s_canvas s)\<lparr>c_image := Some (i_src (t_image (s_trips s ! k))),
                                       c_rects := o_rects out\<rparr>,
               s_loading := False\<rparr>"
    by (simp add: idx assms(2))
  have con: "s_console (step cv s (RoundTripDone k newData)) = s_console s"
    unfolding st by simp
  have ind: "\<forall>current. step cv (s\<lparr>s_src := current\<rparr>) (RoundTripDone k newData)
                      = (step cv s (RoundTripDone k newData))\<lparr>s_src := current\<rparr>"
    by (simp add: idx assms(2))
  show ?thesis
    by (intro conjI st con ind)
qed

theorem C9_round_trip_result_always_written_witness:
  "0 < length (s_trips replaced)
   \<and> onload2 (t_pending (s_trips replaced ! 0)) [5, 0, 0, 255]
       = Inr \<lparr>o_composite = [[3 / 4]], o_thr = Some (3 / 4), o_mask = [[True]],
               o_rects = [(0, 0, 1, 1)], o_console = []\<rparr>
   \<and> s_canvas (step identityEnv replaced (RoundTripDone 0 [5, 0, 0, 255]))
       = \<lparr>c_width = 1, c_height = 1, c_image = Some ''a.png'', c_rects = [(0, 0, 1, 1)]\<rparr>
   \<and> s_loading (step identityEnv replaced (RoundTripDone 0 [5, 0, 0, 255])) = False"
proof -
  have h1: "0 < length (s_trips replaced)"
    by (simp add: replaced_state)
  have h2: "onload2 (t_pending (s_trips replaced ! 0)) [5, 0, 0, 255]
       = Inr \<lparr>o_composite = [[3 / 4]], o_thr = Some (3 / 4), o_mask = [[True]],
               o_rects = [(0, 0, 1, 1)], o_console = []\<rparr>"
    by (simp add: replaced_state stale_outcome del: One_nat_def)
  note inst = C9_round_trip_result_always_written[OF h1 h2, of identityEnv, THEN conjunct1]
  have c: "s_canvas (step identityEnv replaced (RoundTripDone 0 [5, 0, 0, 255]))
       = \<lparr>c_width = 1, c_height = 1, c_image = Some ''a.png'', c_rects = [(0, 0, 1, 1)]\<rparr>"
    unfolding inst by (simp add: replaced_state imageA_def del: One_nat_def)
  have l: "s_loading (step identityEnv replaced (RoundTripDone 0 [5, 0, 0, 255])) = False"
    unfolding inst by simp
  show ?thesis
    by (intro conjI h1 h2 c l)
qed

text \<open>
  C9 as stated fails. The source changes from \<^verbatim>\<open>a.png\<close> to \<^verbatim>\<open>b.png\<close> while
  the round trip of \<^verbatim>\<open>a.png\<close> is outstanding; the canvas shows \<^verbatim>\<open>b.png\<close> and
  the analysis of \<^verbatim>\<open>b.png\<close> is not finished. When the round trip of \<^verbatim>\<open>a.png\<close>
  completes, \<^verbatim>\<open>a.png\<close> and its highlight are drawn on the canvas and
  \<^verbatim>\<open>loading\<close> becomes false, although the current source is \<^verbatim>\<open>b.png\<close>.
\<close>

theorem C9_counterexample:
  "s_src replaced = ''b.png''
   \<and> c_image (s_canvas replaced) = Some ''b.png''
   \<and> c_rects (s_canvas replaced) = []
   \<and> s_loading replaced = True
   \<and> s_src (step identityEnv replaced (RoundTripDone 0 [5, 0, 0, 255])) = ''b.png''
   \<and> c_image (s_canvas (step identityEnv replaced (RoundTripDone 0 [5, 0, 0, 255]))) = Some ''a.png''
   \<and> c_rects (s_canvas (step identityEnv replaced (RoundTripDone 0 [5, 0, 0, 255]))) = [(0, 0, 1, 1)]
   \<and> s_loading (step identityEnv replaced (RoundTripDone 0 [5, 0, 0, 255])) = False"
  by (simp add: replaced_state js_index_def stale_outcome imageA_def del: One_nat_def)

end
